theory Spec2Isabelle
  imports Main "HOL-Library.Word"
begin

section \<open>Data model of banque.c\<close>

text \<open>
  The program is compiled for Linux on a 64-bit target: \<^verbatim>\<open>long\<close> and
  \<^verbatim>\<open>unsigned long\<close> are 64-bit words, \<^verbatim>\<open>int\<close> is a 32-bit word. Arithmetic
  on words wraps around (two's complement); \<open>sint\<close> reads a word as the signed value
  the program prints, \<open>unat\<close> as the unsigned one. The comparison \<open><\<close> on words is
  the unsigned one, \<open><s\<close> the signed one.
\<close>

type_synonym long = "64 word"
type_synonym cint = "32 word"

text \<open>\<^verbatim>\<open>struct account { volatile long balance; };\<close>\<close>

record account =
  balance :: long

text \<open>
  The only account object of the program is \<^verbatim>\<open>global_account\<close>; a pointer to an
  account is therefore either \<^verbatim>\<open>&global_account\<close> or \<^verbatim>\<open>NULL\<close> (\<open>None\<close>).
\<close>

datatype account_ptr = Global_account

text \<open>\<^verbatim>\<open>struct operation { struct account *account; int amount; const char *name; };\<close>\<close>

record operation =
  account :: "account_ptr option"
  amount :: cint
  name :: "string option"

text \<open>The four functions a \<^verbatim>\<open>spawn_method\<close> pointer can hold.\<close>

datatype spawn_method = Spawn_serial | Spawn_fork | Spawn_pthread | Spawn_pth

text \<open>\<^verbatim>\<open>struct opts { long amount; long repeat; spawn_method lib; };\<close>\<close>

record opts =
  amount :: long
  repeat :: long
  lib :: spawn_method

definition DEFAULT_REPEAT :: long where
  "DEFAULT_REPEAT = 10000000"

definition DEFAULT_AMOUNT :: long where
  "DEFAULT_AMOUNT = 100000000"

text \<open>The static initialiser of the table \<^verbatim>\<open>ops[]\<close>, sentinel included.\<close>

definition ops_init :: "operation list" where
  "ops_init =
     [\<lparr>account = Some Global_account, amount = 6, name = Some ''Montreal''\<rparr>,
      \<lparr>account = Some Global_account, amount = - 4, name = Some ''Paris''\<rparr>,
      \<lparr>account = Some Global_account, amount = 7, name = Some ''Johannesburg''\<rparr>,
      \<lparr>account = Some Global_account, amount = - 3, name = Some ''Bangalore''\<rparr>,
      \<lparr>account = None, amount = 0, name = None\<rparr>]"

text \<open>The static initialiser of \<^verbatim>\<open>vars\<close>.\<close>

definition vars_init :: opts where
  "vars_init = \<lparr>amount = DEFAULT_AMOUNT, repeat = DEFAULT_REPEAT, lib = Spawn_serial\<rparr>"

subsection \<open>Output and process state\<close>

text \<open>
  A line written to the standard output, kept structured: the worker's line
  \<^verbatim>\<open>"ATM %12s balance: %11ld $ (pid=%d, tid=%d)"\<close> and the three lines of the driver.
\<close>

datatype line =
    Atm_balance "string option" long nat nat
  | Start_balance long
  | End_balance long
  | Expected long

text \<open>
  The memory of one process: the globals \<^verbatim>\<open>global_account\<close>, \<^verbatim>\<open>ops\<close> and
  \<^verbatim>\<open>vars\<close>, what it has written to its two output streams, its identity
  (\<open>tid\<close> is what \<^verbatim>\<open>gettid()\<close> returns in the running thread), the children it
  has not yet reaped, and how many times it has called \<^verbatim>\<open>fork\<close> and
  \<^verbatim>\<open>pthread_create\<close>.
\<close>

record process =
  global_account :: account
  ops :: "operation list"
  vars :: opts
  stdout :: "line list"
  stderr :: "string list"
  pid :: nat
  tid :: nat
  children :: "nat list"
  fork_calls :: nat
  create_calls :: nat

text \<open>
  How a process stops abnormally: \<^verbatim>\<open>exit(EXIT_FAILURE)\<close>, a read through a
  \<^verbatim>\<open>NULL\<close> account pointer, a read past the end of the table, or the use of a
  thread handle left by a \<^verbatim>\<open>pthread_create\<close> that failed. A function that can
  stop returns \<open>Inl\<close> of the reason and of the state at that moment.
\<close>

datatype fault = Exit_failure | Null_deref | Out_of_bounds | Invalid_thread

type_synonym 'a result = "(fault \<times> process) + 'a"

text \<open>
  What the operating system answers, as seen by one process. \<open>fork_result\<close>: the
  value of the \<open>k\<close>-th call of \<^verbatim>\<open>fork\<close>: 0 in a new child (with the child's
  pid), the child's pid in the parent, or -1. \<open>create_result\<close>: the \<open>k\<close>-th call of
  \<^verbatim>\<open>pthread_create\<close> starts a thread (with its tid) or returns an error number.
  \<open>schedule\<close>: the order in which the kernel lets the threads take their next memory
  access. \<open>pth_order\<close>: the order in which the pth scheduler dispatches its threads.
\<close>

datatype fork_result = Fork_child nat | Fork_parent nat | Fork_failed

datatype create_result = Created nat | Create_failed

record os =
  fork_result :: "nat \<Rightarrow> fork_result"
  create_result :: "nat \<Rightarrow> create_result"
  schedule :: "nat list"
  pth_order :: "nat list"

section \<open>Command line\<close>

text \<open>
  \<^verbatim>\<open>usage\<close> writes the help text to the standard error stream and calls
  \<^verbatim>\<open>exit(EXIT_FAILURE)\<close>.
\<close>

definition usage_text :: "string list" where
  "usage_text =
     [''Usage: banque [OPTIONS] [COMMAND]'',
      ''Execute un programme a un emplacement fixe en memoire'',
      '''',
      ''Options:'',
      '''',
      ''--lib LIB        type de fil d'execution a utiliser [ serial | fork | pthread | pth ]'',
      ''--amount AMOUNT  montant de depart'',
      ''--repeat NR      nombre de transactions'',
      ''--help           ce message d'aide'']"

definition usage :: "process \<Rightarrow> 'a result" where
  "usage st = Inl (Exit_failure, st\<lparr>stderr := stderr st @ usage_text\<rparr>)"

text \<open>
  \<^verbatim>\<open>atol\<close> of the C library, as glibc implements it (\<^verbatim>\<open>strtol(s, NULL, 10)\<close>):
  white space is skipped, an optional sign is read, then the longest run of decimal
  digits; the value is 0 when there is no digit, and it saturates at the bounds of
  \<^verbatim>\<open>long\<close>. No error is reported to the caller.
\<close>

definition isspace :: "char \<Rightarrow> bool" where
  "isspace c = (of_char c \<in> {32, 9, 10, 11, 12, 13 :: nat})"

definition isdigit :: "char \<Rightarrow> bool" where
  "isdigit c = (48 \<le> (of_char c :: nat) \<and> (of_char c :: nat) \<le> 57)"

fun strtol_digits :: "string \<Rightarrow> int \<Rightarrow> int" where
  "strtol_digits [] acc = acc"
| "strtol_digits (c # cs) acc =
     (if isdigit c then strtol_digits cs (acc * 10 + (int (of_char c) - 48)) else acc)"

definition atol :: "string \<Rightarrow> long" where
  "atol s =
     (let t = dropWhile isspace s;
          neg = (case t of [] \<Rightarrow> False | c # cs \<Rightarrow> c = CHR ''-'');
          d = (case t of [] \<Rightarrow> [] | c # cs \<Rightarrow> if c = CHR ''-'' \<or> c = CHR ''+'' then cs else t);
          v = strtol_digits d 0;
          v' = (if neg then - v else v)
      in word_of_int (max (- (2 ^ 63)) (min (2 ^ 63 - 1) v')))"

text \<open>
  One call of \<^verbatim>\<open>getopt_long\<close>, as \<^verbatim>\<open>parse_opts\<close> sees it: the option
  character it returns (\<^verbatim>\<open>?\<close> for an option it does not know or whose argument is
  missing), the \<^verbatim>\<open>optarg\<close> it sets, and the lines it writes itself to the standard
  error stream during the call. The program leaves \<^verbatim>\<open>opterr\<close> at 1, so the call
  that returns \<^verbatim>\<open>?\<close> has written its diagnostic before \<^verbatim>\<open>parse_opts\<close> looks
  at the result.
\<close>

type_synonym getopt_call = "char \<times> string \<times> string list"

definition getopt_long :: "string list \<Rightarrow> process \<Rightarrow> process" where
  "getopt_long diag st = st\<lparr>stderr := stderr st @ diag\<rparr>"

text \<open>
  \<^verbatim>\<open>parse_opts\<close>. The argument is the sequence of the calls of
  \<^verbatim>\<open>getopt_long\<close> up to the one that returns -1.
\<close>

fun parse_opts :: "getopt_call list \<Rightarrow> process \<Rightarrow> process result" where
  "parse_opts [] st = Inr st"
| "parse_opts ((opt, optarg, diag) # rest) st =
     (if opt = CHR ''r'' then
        parse_opts rest
          ((getopt_long diag st)\<lparr>vars := (vars st)\<lparr>opts.repeat := atol optarg\<rparr>\<rparr>)
      else if opt = CHR ''a'' then
        parse_opts rest
          ((getopt_long diag st)\<lparr>vars := (vars st)\<lparr>opts.amount := atol optarg\<rparr>\<rparr>)
      else if opt = CHR ''l'' then
        (if optarg = ''serial'' then
           parse_opts rest
             ((getopt_long diag st)\<lparr>vars := (vars st)\<lparr>opts.lib := Spawn_serial\<rparr>\<rparr>)
         else if optarg = ''fork'' then
           parse_opts rest
             ((getopt_long diag st)\<lparr>vars := (vars st)\<lparr>opts.lib := Spawn_fork\<rparr>\<rparr>)
         else if optarg = ''pthread'' then
           parse_opts rest
             ((getopt_long diag st)\<lparr>vars := (vars st)\<lparr>opts.lib := Spawn_pthread\<rparr>\<rparr>)
         else if optarg = ''pth'' then
           parse_opts rest
             ((getopt_long diag st)\<lparr>vars := (vars st)\<lparr>opts.lib := Spawn_pth\<rparr>\<rparr>)
         else usage (getopt_long diag st))
      else if opt = CHR ''h'' then usage (getopt_long diag st)
      else usage (getopt_long diag st))"

section \<open>Counting the operations\<close>

text \<open>
  \<^verbatim>\<open>nr_ops\<close> walks the table until an entry whose name is \<^verbatim>\<open>NULL\<close>. The
  table is the list of the entries of the array; walking off its end is a read out of
  bounds. The argument \<open>None\<close> is the \<^verbatim>\<open>NULL\<close> pointer.
\<close>

fun nr_ops_loop :: "operation list \<Rightarrow> cint \<Rightarrow> fault + cint" where
  "nr_ops_loop [] nr = Inl Out_of_bounds"
| "nr_ops_loop (e # rest) nr =
     (if name e \<noteq> None then nr_ops_loop rest (nr + 1) else Inr nr)"

definition nr_ops :: "operation list option \<Rightarrow> fault + cint" where
  "nr_ops tbl = (case tbl of None \<Rightarrow> Inr 0 | Some es \<Rightarrow> nr_ops_loop es 0)"

text \<open>\<^verbatim>\<open>ops[i]\<close> for an \<^verbatim>\<open>int\<close> index.\<close>

definition op_at :: "process \<Rightarrow> cint \<Rightarrow> operation result" where
  "op_at st i =
     (if 0 \<le> sint i \<and> nat (sint i) < length (ops st) then Inr (ops st ! nat (sint i))
      else Inl (Out_of_bounds, st))"

section \<open>The worker routine\<close>

text \<open>
  The loop of \<^verbatim>\<open>atm\<close>: \<^verbatim>\<open>for (i = 0; i < vars.repeat; i++) balance += amount;\<close>.
  The counter is an \<^verbatim>\<open>unsigned long\<close>, so the comparison converts
  \<^verbatim>\<open>vars.repeat\<close> to \<^verbatim>\<open>unsigned long\<close>: it is the unsigned comparison of the two
  words. The \<^verbatim>\<open>int\<close> amount is converted to \<^verbatim>\<open>long\<close> (\<open>scast\<close>) and added.
\<close>

lemma unat_inc_less: "(i :: long) < rep \<Longrightarrow> unat (i + 1) = Suc (unat i)"
proof -
  assume "i < rep"
  then have "unat i < unat rep" by (simp add: word_less_nat_alt)
  moreover have "unat rep < 2 ^ 64" using unsigned_less [of rep, where 'a = nat] by simp
  ultimately have "unat i + unat (1 :: long) < 2 ^ LENGTH(64)" by simp
  then have "unat (i + 1) = unat i + unat (1 :: long)" by (simp only: unat_add_lem)
  then show ?thesis by simp
qed

lemma unat_inc_measure: "(i :: long) < rep \<Longrightarrow> unat rep - unat (i + 1) < unat rep - unat i"
  by (simp add: unat_inc_less word_less_nat_alt)

lemma sint_inc: "(i :: cint) <s m \<Longrightarrow> sint (i + 1) = sint i + 1"
proof -
  assume "i <s m"
  then have "sint i < sint m" by (simp add: word_sless_alt)
  moreover have "sint m < 2 ^ 31" using sint_lt [of m] by simp
  moreover have "- (2 ^ 31) \<le> sint i" using sint_ge [of i] by simp
  ultimately have "signed_take_bit 31 (sint i + 1) = sint i + 1"
    by (intro signed_take_bit_int_eq_self) auto
  then show ?thesis by (simp add: sint_word_add)
qed

lemma sint_inc_measure:
  "(i :: cint) <s m \<Longrightarrow> sint i < sint m \<and> sint i < sint (i + 1)"
  by (simp add: sint_inc word_sless_alt)

function atm_loop :: "long \<Rightarrow> long \<Rightarrow> cint \<Rightarrow> long \<Rightarrow> long" where
  "atm_loop i rep amt bal =
     (if i < rep then atm_loop (i + 1) rep amt (bal + scast amt) else bal)"
  by pat_completeness auto
termination
  by (relation "measure (\<lambda>(i, rep, amt, bal). unat rep - unat i)")
     (simp_all add: unat_inc_measure)

text \<open>The number of times the body of that loop runs, by the same recursion.\<close>

function atm_iterations :: "long \<Rightarrow> long \<Rightarrow> nat" where
  "atm_iterations i rep = (if i < rep then Suc (atm_iterations (i + 1) rep) else 0)"
  by pat_completeness auto
termination
  by (relation "measure (\<lambda>(i, rep). unat rep - unat i)")
     (simp_all add: unat_inc_measure)

declare atm_loop.simps [simp del] atm_iterations.simps [simp del]

text \<open>
  \<^verbatim>\<open>atm\<close> run without interruption: the loop on the balance of the account the
  operation points to, then the line with the balance read back.
\<close>

definition atm :: "operation \<Rightarrow> process \<Rightarrow> process result" where
  "atm op st =
     (case account op of
        None \<Rightarrow> Inl (Null_deref, st)
      | Some Global_account \<Rightarrow>
          (let b = atm_loop 0 (opts.repeat (vars st)) (operation.amount op)
                     (balance (global_account st));
               st' = st\<lparr>global_account := (global_account st)\<lparr>balance := b\<rparr>\<rparr>
           in Inr (st'\<lparr>stdout := stdout st' @
                 [Atm_balance (name op) (balance (global_account st')) (pid st') (tid st')]\<rparr>)))"

section \<open>Serial execution\<close>

function spawn_serial_loop :: "cint \<Rightarrow> cint \<Rightarrow> process \<Rightarrow> process result" where
  "spawn_serial_loop i mx st =
     (if i <s mx then
        (case op_at st i of
           Inl e \<Rightarrow> Inl e
         | Inr op \<Rightarrow>
             (case atm op st of
                Inl e \<Rightarrow> Inl e
              | Inr st' \<Rightarrow> spawn_serial_loop (i + 1) mx st'))
      else Inr st)"
  by pat_completeness auto
termination
  by (relation "measure (\<lambda>(i, mx, st). nat (sint mx - sint i))")
     (auto dest: sint_inc_measure)

definition spawn_serial :: "process \<Rightarrow> process result" where
  "spawn_serial st =
     (case nr_ops (Some (ops st)) of
        Inl f \<Rightarrow> Inl (f, st)
      | Inr mx \<Rightarrow> spawn_serial_loop 0 mx st)"

section \<open>Execution in processes\<close>

text \<open>
  \<^verbatim>\<open>fork()\<close> in the calling process: the next answer of the operating system.
  In the child the memory is a copy of the parent's; the child has its own pid and no
  children. In the parent a successful call adds a child.
\<close>

definition fork :: "os \<Rightarrow> process \<Rightarrow> fork_result \<times> process" where
  "fork sys st =
     (let r = fork_result sys (fork_calls st);
          st' = st\<lparr>fork_calls := Suc (fork_calls st)\<rparr>
      in case r of
           Fork_child p \<Rightarrow> (r, st'\<lparr>pid := p, tid := p, children := []\<rparr>)
         | Fork_parent p \<Rightarrow> (r, st'\<lparr>children := children st' @ [p]\<rparr>)
         | Fork_failed \<Rightarrow> (r, st'))"

text \<open>
  \<^verbatim>\<open>while (wait(NULL) != -1) {}\<close>: each call reaps one child; the call that finds
  no child returns -1.
\<close>

fun wait_loop :: "nat list \<Rightarrow> nat list" where
  "wait_loop [] = []"
| "wait_loop (c # cs) = wait_loop cs"

text \<open>
  The loop of \<^verbatim>\<open>spawn_fork\<close>. The test is \<^verbatim>\<open>fork() == 0\<close>: the child runs
  \<^verbatim>\<open>atm\<close> and returns from \<^verbatim>\<open>spawn_fork\<close>; every other value of
  \<^verbatim>\<open>fork\<close>, -1 included, goes on with the next operation.
\<close>

function spawn_fork_loop :: "cint \<Rightarrow> cint \<Rightarrow> os \<Rightarrow> process \<Rightarrow> process result" where
  "spawn_fork_loop i mx sys st =
     (if i <s mx then
        (case fork sys st of
           (Fork_child p, st') \<Rightarrow>
             (case op_at st' i of
                Inl e \<Rightarrow> Inl e
              | Inr op \<Rightarrow> atm op st')
         | (_, st') \<Rightarrow> spawn_fork_loop (i + 1) mx sys st')
      else Inr (st\<lparr>children := wait_loop (children st)\<rparr>))"
  by pat_completeness auto
termination
  by (relation "measure (\<lambda>(i, mx, sys, st). nat (sint mx - sint i))")
     (auto dest: sint_inc_measure)

definition spawn_fork :: "os \<Rightarrow> process \<Rightarrow> process result" where
  "spawn_fork sys st =
     (case nr_ops (Some (ops st)) of
        Inl f \<Rightarrow> Inl (f, st)
      | Inr mx \<Rightarrow> spawn_fork_loop 0 mx sys st)"

section \<open>Execution in preemptive threads\<close>

text \<open>
  Threads share the memory of the process, and the kernel may switch from one to
  another between any two accesses to \<^verbatim>\<open>balance\<close>. The statement
  \<^verbatim>\<open>balance += amount\<close> on the \<^verbatim>\<open>volatile\<close> field is a read followed by a
  write, and the call of \<^verbatim>\<open>printf\<close> reads the balance for its argument before it
  writes the line. A running \<^verbatim>\<open>atm\<close> is therefore at one of four places: before
  the test of the loop, between the read and the write of the balance (holding the
  value read), between the read of the balance and the output of the line (holding the
  value read), or returned.
\<close>

datatype pc = At_test | At_store long | At_print long | Returned

record worker =
  w_op :: operation
  w_i :: long
  w_pc :: pc
  w_tid :: nat

text \<open>One step of a running \<^verbatim>\<open>atm\<close>, up to its next access to the balance.\<close>

definition atm_step :: "worker \<Rightarrow> process \<Rightarrow> (worker \<times> process) result" where
  "atm_step w st =
     (case w_pc w of
        Returned \<Rightarrow> Inr (w, st)
      | At_test \<Rightarrow>
          (case account (w_op w) of
             None \<Rightarrow> Inl (Null_deref, st)
           | Some Global_account \<Rightarrow>
               if w_i w < opts.repeat (vars st) then
                 Inr (w\<lparr>w_pc := At_store (balance (global_account st))\<rparr>, st)
               else
                 Inr (w\<lparr>w_pc := At_print (balance (global_account st))\<rparr>, st))
      | At_store t \<Rightarrow>
          Inr (w\<lparr>w_i := w_i w + 1, w_pc := At_test\<rparr>,
               st\<lparr>global_account := (global_account st)
                 \<lparr>balance := t + scast (operation.amount (w_op w))\<rparr>\<rparr>)
      | At_print b \<Rightarrow>
          Inr (w\<lparr>w_pc := Returned\<rparr>,
               st\<lparr>stdout := stdout st @
                 [Atm_balance (name (w_op w)) b (pid st) (w_tid w)]\<rparr>))"

text \<open>The steps a thread still has to take, which bounds the loop below.\<close>

definition steps_left :: "worker \<Rightarrow> process \<Rightarrow> nat" where
  "steps_left w st =
     (case w_pc w of
        Returned \<Rightarrow> 0
      | At_print b \<Rightarrow> 1
      | At_test \<Rightarrow> 2 * (unat (opts.repeat (vars st)) - unat (w_i w)) + 2
      | At_store t \<Rightarrow> 2 * (unat (opts.repeat (vars st)) - unat (w_i w + 1)) + 3)"

lemma unat_inc_steps:
  "(i :: long) < rep \<Longrightarrow> Suc (2 * (unat rep - unat (i + 1))) < 2 * (unat rep - unat i)"
  by (simp add: unat_inc_less word_less_nat_alt)

lemma atm_step_decreases:
  "atm_step w st = Inr (w', st') \<Longrightarrow> w_pc w \<noteq> Returned \<Longrightarrow>
     steps_left w' st' < steps_left w st"
  by (cases "w_pc w")
     (auto simp: atm_step_def steps_left_def unat_inc_steps
           split: option.splits account_ptr.splits if_splits)

text \<open>A thread left alone until it returns.\<close>

function run_worker :: "worker \<Rightarrow> process \<Rightarrow> (worker \<times> process) result" where
  "run_worker w st =
     (if w_pc w = Returned then Inr (w, st)
      else (case atm_step w st of
              Inl e \<Rightarrow> Inl e
            | Inr (w', st') \<Rightarrow> run_worker w' st'))"
  by pat_completeness auto
termination
  by (relation "measure (\<lambda>(w, st). steps_left w st)")
     (auto dest: atm_step_decreases)

text \<open>
  An element of the array \<^verbatim>\<open>thread\<close>. The program never initialises the array
  itself. After a call of \<^verbatim>\<open>pthread_create\<close> that succeeded the element
  designates the new thread; after a call that failed its contents are not defined
  (the library decides what it stores there, if anything), and the only thing the
  model says of such an element is that it designates no thread the call created.
\<close>

datatype pthread_t = Thread worker | Indeterminate

text \<open>
  \<^verbatim>\<open>pthread_create(&thread[i], NULL, atm, &ops[i])\<close>: the next answer of the
  operating system. On success the handle designates a thread about to enter
  \<^verbatim>\<open>atm\<close>. The value the call returns is not looked at by the caller.
\<close>

definition pthread_create :: "os \<Rightarrow> operation \<Rightarrow> process \<Rightarrow> pthread_t \<times> process" where
  "pthread_create sys op st =
     (let r = create_result sys (create_calls st);
          st' = st\<lparr>create_calls := Suc (create_calls st)\<rparr>
      in case r of
           Created t \<Rightarrow> (Thread \<lparr>w_op = op, w_i = 0, w_pc = At_test, w_tid = t\<rparr>, st')
         | Create_failed \<Rightarrow> (Indeterminate, st'))"

text \<open>The first loop of \<^verbatim>\<open>spawn_pthread\<close>, filling the array \<^verbatim>\<open>thread\<close>.\<close>

function pthread_create_loop ::
  "cint \<Rightarrow> cint \<Rightarrow> os \<Rightarrow> pthread_t list \<Rightarrow> process \<Rightarrow>
     (pthread_t list \<times> process) result" where
  "pthread_create_loop i mx sys thread st =
     (if i <s mx then
        (case op_at st i of
           Inl e \<Rightarrow> Inl e
         | Inr op \<Rightarrow>
             (case pthread_create sys op st of
                (h, st') \<Rightarrow> pthread_create_loop (i + 1) mx sys (thread @ [h]) st'))
      else Inr (thread, st))"
  by pat_completeness auto
termination
  by (relation "measure (\<lambda>(i, mx, sys, thread, st). nat (sint mx - sint i))")
     (auto dest: sint_inc_measure)

text \<open>
  The threads running under the kernel's schedule: each entry names the thread that
  takes the next step.
\<close>

fun run_schedule ::
  "nat list \<Rightarrow> pthread_t list \<Rightarrow> process \<Rightarrow> (pthread_t list \<times> process) result" where
  "run_schedule [] thread st = Inr (thread, st)"
| "run_schedule (k # ks) thread st =
     (if k < length thread then
        (case thread ! k of
           Indeterminate \<Rightarrow> run_schedule ks thread st
         | Thread w \<Rightarrow>
             (case atm_step w st of
                Inl e \<Rightarrow> Inl e
              | Inr (w', st') \<Rightarrow> run_schedule ks (thread[k := Thread w']) st'))
      else run_schedule ks thread st)"

text \<open>
  The second loop of \<^verbatim>\<open>spawn_pthread\<close>: \<^verbatim>\<open>pthread_join\<close> on each handle in
  turn, which returns when that thread has returned. Joining a handle whose contents
  are not defined has no defined behaviour.
\<close>

fun pthread_join_loop :: "pthread_t list \<Rightarrow> process \<Rightarrow> process result" where
  "pthread_join_loop [] st = Inr st"
| "pthread_join_loop (Indeterminate # rest) st = Inl (Invalid_thread, st)"
| "pthread_join_loop (Thread w # rest) st =
     (case run_worker w st of
        Inl e \<Rightarrow> Inl e
      | Inr (w', st') \<Rightarrow> pthread_join_loop rest st')"

definition spawn_pthread :: "os \<Rightarrow> process \<Rightarrow> process result" where
  "spawn_pthread sys st =
     (case nr_ops (Some (ops st)) of
        Inl f \<Rightarrow> Inl (f, st)
      | Inr mx \<Rightarrow>
          (case pthread_create_loop 0 mx sys [] st of
             Inl e \<Rightarrow> Inl e
           | Inr (thread, st1) \<Rightarrow>
               (case run_schedule (schedule sys) thread st1 of
                  Inl e \<Rightarrow> Inl e
                | Inr (thread', st2) \<Rightarrow> pthread_join_loop thread' st2)))"

section \<open>Execution in cooperative threads\<close>

text \<open>
  A pth thread keeps the processor until it calls the library; \<^verbatim>\<open>atm\<close> never
  does, so each thread runs \<^verbatim>\<open>atm\<close> from start to end once the scheduler picks
  it, which happens when the main thread waits in \<^verbatim>\<open>pth_join\<close>. All of them run
  in the one kernel thread of the process.
\<close>

function pth_spawn_loop ::
  "cint \<Rightarrow> cint \<Rightarrow> operation list \<Rightarrow> process \<Rightarrow> operation list result" where
  "pth_spawn_loop i mx thread st =
     (if i <s mx then
        (case op_at st i of
           Inl e \<Rightarrow> Inl e
         | Inr op \<Rightarrow> pth_spawn_loop (i + 1) mx (thread @ [op]) st)
      else Inr thread)"
  by pat_completeness auto
termination
  by (relation "measure (\<lambda>(i, mx, thread, st). nat (sint mx - sint i))")
     (auto dest: sint_inc_measure)

text \<open>
  The order of dispatch among \<open>n\<close> threads: the scheduler's choices, each thread
  once, then the threads it did not name.
\<close>

definition pth_dispatch :: "nat list \<Rightarrow> nat \<Rightarrow> nat list" where
  "pth_dispatch order n =
     (let picked = remdups (filter (\<lambda>k. k < n) order)
      in picked @ filter (\<lambda>k. k \<notin> set picked) [0..<n])"

fun pth_run :: "nat list \<Rightarrow> operation list \<Rightarrow> process \<Rightarrow> process result" where
  "pth_run [] thread st = Inr st"
| "pth_run (k # ks) thread st =
     (if k < length thread then
        (case atm (thread ! k) st of
           Inl e \<Rightarrow> Inl e
         | Inr st' \<Rightarrow> pth_run ks thread st')
      else pth_run ks thread st)"

definition spawn_pth :: "os \<Rightarrow> process \<Rightarrow> process result" where
  "spawn_pth sys st =
     (case nr_ops (Some (ops st)) of
        Inl f \<Rightarrow> Inl (f, st)
      | Inr mx \<Rightarrow>
          (case pth_spawn_loop 0 mx [] st of
             Inl e \<Rightarrow> Inl e
           | Inr thread \<Rightarrow> pth_run (pth_dispatch (pth_order sys) (length thread)) thread st))"

section \<open>The driver\<close>

text \<open>The call \<^verbatim>\<open>vars.lib(&global_account)\<close> through the function pointer.\<close>

definition call_lib :: "spawn_method \<Rightarrow> os \<Rightarrow> process \<Rightarrow> process result" where
  "call_lib m sys st =
     (case m of
        Spawn_serial \<Rightarrow> spawn_serial st
      | Spawn_fork \<Rightarrow> spawn_fork sys st
      | Spawn_pthread \<Rightarrow> spawn_pthread sys st
      | Spawn_pth \<Rightarrow> spawn_pth sys st)"

text \<open>
  The loop of \<^verbatim>\<open>main\<close> that adds \<^verbatim>\<open>ops[i].amount * vars.repeat\<close> to
  \<^verbatim>\<open>expected\<close>; the product is computed in \<^verbatim>\<open>long\<close>.
\<close>

function expected_loop :: "cint \<Rightarrow> cint \<Rightarrow> process \<Rightarrow> long \<Rightarrow> long result" where
  "expected_loop i mx st expected =
     (if i <s mx then
        (case op_at st i of
           Inl e \<Rightarrow> Inl e
         | Inr op \<Rightarrow>
             expected_loop (i + 1) mx st
               (expected + scast (operation.amount op) * opts.repeat (vars st)))
      else Inr expected)"
  by pat_completeness auto
termination
  by (relation "measure (\<lambda>(i, mx, st, expected). nat (sint mx - sint i))")
     (auto dest: sint_inc_measure)

text \<open>
  \<^verbatim>\<open>main\<close>, in one process: count the operations, read the options, set the
  balance and compute \<^verbatim>\<open>expected\<close>, call the chosen function, print the three
  lines. Whatever returns from the call prints them; with \<^verbatim>\<open>fork\<close> that is the
  parent and also each child, whose \<^verbatim>\<open>return\<close> in \<^verbatim>\<open>spawn_fork\<close> leads back
  here.
\<close>

definition main :: "getopt_call list \<Rightarrow> os \<Rightarrow> process \<Rightarrow> process result" where
  "main argv sys st =
     (case nr_ops (Some (ops st)) of
        Inl f \<Rightarrow> Inl (f, st)
      | Inr mx \<Rightarrow>
          (case parse_opts argv st of
             Inl e \<Rightarrow> Inl e
           | Inr st1 \<Rightarrow>
               (let st2 = st1\<lparr>global_account :=
                            (global_account st1)\<lparr>balance := opts.amount (vars st1)\<rparr>\<rparr>
                in case expected_loop 0 mx st2 (opts.amount (vars st1)) of
                     Inl e \<Rightarrow> Inl e
                   | Inr expected \<Rightarrow>
                       (case call_lib (opts.lib (vars st2)) sys st2 of
                          Inl e \<Rightarrow> Inl e
                        | Inr st3 \<Rightarrow>
                            Inr (st3\<lparr>stdout := stdout st3 @
                                  [Start_balance (opts.amount (vars st3)),
                                   End_balance (balance (global_account st3)),
                                   Expected expected]\<rparr>)))))"

text \<open>The memory of the program when \<^verbatim>\<open>main\<close> is entered, in the process \<open>p\<close>.\<close>

definition boot :: "nat \<Rightarrow> process" where
  "boot p =
     \<lparr>global_account = \<lparr>balance = 0\<rparr>, ops = ops_init, vars = vars_init,
      stdout = [], stderr = [], pid = p, tid = p, children = [],
      fork_calls = 0, create_calls = 0\<rparr>"

text \<open>
  All the processes of a run with \<^verbatim>\<open>fork\<close>. A child is a copy of its parent at
  the call of \<^verbatim>\<open>fork\<close> that made it, so it is the same program with the same
  answers of the operating system up to that call, which answers 0 to it. The run is
  the parent followed by the child of each call that succeeded.
\<close>

definition child_os :: "os \<Rightarrow> nat \<Rightarrow> nat \<Rightarrow> os" where
  "child_os sys k p = sys\<lparr>fork_result := (fork_result sys)(k := Fork_child p)\<rparr>"

definition child_runs ::
  "getopt_call list \<Rightarrow> os \<Rightarrow> process \<Rightarrow> nat \<Rightarrow> process result list" where
  "child_runs argv sys st n =
     concat (map (\<lambda>k. case fork_result sys k of
                          Fork_parent p \<Rightarrow> [main argv (child_os sys k p) st]
                        | _ \<Rightarrow> [])
                 [0..<n])"

definition run :: "getopt_call list \<Rightarrow> os \<Rightarrow> process \<Rightarrow> process result list" where
  "run argv sys st =
     (case main argv sys st of
        Inl e \<Rightarrow> [Inl e]
      | Inr st' \<Rightarrow> Inr st' # child_runs argv sys st (fork_calls st'))"

text \<open>The number of times the driver's three lines occur in what a process wrote.\<close>

fun reports :: "line list \<Rightarrow> nat" where
  "reports (Start_balance s # End_balance e # Expected x # rest) = Suc (reports rest)"
| "reports (l # rest) = reports rest"
| "reports [] = 0"

definition written :: "process result \<Rightarrow> line list" where
  "written r = (case r of Inl (f, st) \<Rightarrow> stdout st | Inr st \<Rightarrow> stdout st)"

section \<open>Vocabulary of the statements\<close>

text \<open>
  The entries of a table before its sentinel; a table as the program expects it: it has
  a sentinel, fewer than \<open>2 ^ 31\<close> entries before it (the count is an \<^verbatim>\<open>int\<close>),
  and each of them points to the global account.
\<close>

definition named :: "operation list \<Rightarrow> operation list" where
  "named es = takeWhile (\<lambda>e. name e \<noteq> None) es"

definition wf_table :: "operation list \<Rightarrow> bool" where
  "wf_table es \<longleftrightarrow>
     (\<exists>e \<in> set es. name e = None) \<and>
     length (named es) < 2 ^ 31 \<and>
     (\<forall>e \<in> set (named es). account e = Some Global_account)"

text \<open>
  The lines that a sequence of uninterrupted \<^verbatim>\<open>atm\<close> calls writes from the balance
  \<open>b\<close> with the repeat count \<open>r\<close>, the sum of the amounts of a list of operations
  as a \<^verbatim>\<open>long\<close>, and the state after such a sequence.
\<close>

fun atm_lines :: "long \<Rightarrow> long \<Rightarrow> nat \<Rightarrow> nat \<Rightarrow> operation list \<Rightarrow> line list" where
  "atm_lines b r p t [] = []"
| "atm_lines b r p t (e # es) =
     Atm_balance (name e) (b + r * scast (operation.amount e)) p t #
     atm_lines (b + r * scast (operation.amount e)) r p t es"

definition total :: "operation list \<Rightarrow> long" where
  "total es = sum_list (map (\<lambda>e. scast (operation.amount e)) es)"

definition after_atms :: "operation list \<Rightarrow> process \<Rightarrow> process" where
  "after_atms es st =
     st\<lparr>global_account := (global_account st)
          \<lparr>balance := balance (global_account st) + opts.repeat (vars st) * total es\<rparr>,
        stdout := stdout st @
          atm_lines (balance (global_account st)) (opts.repeat (vars st)) (pid st) (tid st) es\<rparr>"

text \<open>Whether an answer of \<^verbatim>\<open>fork\<close> is the 0 that the new child gets.\<close>

definition is_child :: "fork_result \<Rightarrow> bool" where
  "is_child r = (case r of Fork_child p \<Rightarrow> True | _ \<Rightarrow> False)"

text \<open>The element of \<^verbatim>\<open>thread\<close> after a call of \<^verbatim>\<open>pthread_create\<close>, in the model.\<close>

fun handle_of :: "create_result \<Rightarrow> operation \<Rightarrow> pthread_t" where
  "handle_of (Created t) e = Thread \<lparr>w_op = e, w_i = 0, w_pc = At_test, w_tid = t\<rparr>"
| "handle_of Create_failed e = Indeterminate"

text \<open>
  The calls of \<^verbatim>\<open>getopt_long\<close> whose result makes \<^verbatim>\<open>parse_opts\<close> call
  \<^verbatim>\<open>usage\<close>: \<^verbatim>\<open>l\<close> with a name that is none of the four, and every option
  character other than \<^verbatim>\<open>r\<close>, \<^verbatim>\<open>a\<close> and \<^verbatim>\<open>l\<close>.
\<close>

definition rejected :: "getopt_call \<Rightarrow> bool" where
  "rejected c =
     (case c of (opt, optarg, diag) \<Rightarrow>
        if opt = CHR ''l'' then optarg \<notin> {''serial'', ''fork'', ''pthread'', ''pth''}
        else opt \<noteq> CHR ''r'' \<and> opt \<noteq> CHR ''a'')"

text \<open>
  What \<^verbatim>\<open>getopt_long\<close> itself writes to the standard error stream in the calls
  that \<^verbatim>\<open>parse_opts\<close> makes: those up to and including the first rejected one.
\<close>

fun diagnostics :: "getopt_call list \<Rightarrow> string list" where
  "diagnostics [] = []"
| "diagnostics ((opt, optarg, diag) # rest) =
     diag @ (if rejected (opt, optarg, diag) then [] else diagnostics rest)"

text \<open>The state in which \<^verbatim>\<open>main\<close> calls the chosen function: the balance is set.\<close>

definition start :: "process \<Rightarrow> process" where
  "start st = st\<lparr>global_account := (global_account st)\<lparr>balance := opts.amount (vars st)\<rparr>\<rparr>"

text \<open>
  Three operating systems to run the program on: one where every creation of a
  process or of a thread succeeds (and the threads run one after the other), one where
  the second creation fails and the others succeed, one where every creation fails.
\<close>

definition os_ok :: os where
  "os_ok = \<lparr>fork_result = (\<lambda>k. Fork_parent (1000 + k)),
            create_result = (\<lambda>k. Created (2000 + k)),
            schedule = [], pth_order = []\<rparr>"

definition os_second_fails :: os where
  "os_second_fails =
     \<lparr>fork_result = (\<lambda>k. if k = 1 then Fork_failed else Fork_parent (1000 + k)),
      create_result = (\<lambda>k. if k = 1 then Create_failed else Created (2000 + k)),
      schedule = [], pth_order = []\<rparr>"

definition os_failing :: os where
  "os_failing = \<lparr>fork_result = (\<lambda>k. Fork_failed),
                 create_result = (\<lambda>k. Create_failed),
                 schedule = [], pth_order = []\<rparr>"

text \<open>
  An operating system under which the first two threads alternate for four steps: each
  reads the balance before the other writes it.
\<close>

definition os_interleaved :: os where
  "os_interleaved = os_ok\<lparr>schedule := [0, 1, 0, 1]\<rparr>"

declare spawn_serial_loop.simps [simp del] spawn_fork_loop.simps [simp del]
  pthread_create_loop.simps [simp del] pth_spawn_loop.simps [simp del]
  expected_loop.simps [simp del] run_worker.simps [simp del]

section \<open>The loop of the worker in closed form\<close>

lemma atm_iterations_eq: "i \<le> rep \<Longrightarrow> atm_iterations i rep = unat rep - unat i"
proof (induction i rep rule: atm_iterations.induct)
  case (1 i rep)
  show ?case
  proof (cases "i < rep")
    case True
    then have "i + 1 \<le> rep" by (rule inc_le)
    with 1 True have "atm_iterations (i + 1) rep = unat rep - unat (i + 1)" by simp
    moreover have "unat i < unat rep" using True by (simp add: word_less_nat_alt)
    ultimately show ?thesis using True
      by (subst atm_iterations.simps) (simp add: unat_inc_less)
  next
    case False
    with 1 have "i = rep" by simp
    then show ?thesis by (subst atm_iterations.simps) simp
  qed
qed

lemma atm_loop_closed: "i \<le> rep \<Longrightarrow> atm_loop i rep amt bal = bal + (rep - i) * scast amt"
proof (induction i rep amt bal rule: atm_loop.induct)
  case (1 i rep amt bal)
  show ?case
  proof (cases "i < rep")
    case True
    then have "i + 1 \<le> rep" by (rule inc_le)
    with 1 True have "atm_loop (i + 1) rep amt (bal + scast amt) = bal + scast amt + (rep - (i + 1)) * scast amt"
      by simp
    then show ?thesis using True
      by (subst atm_loop.simps) (simp add: algebra_simps)
  next
    case False
    with 1 have "i = rep" by simp
    then show ?thesis by (subst atm_loop.simps) simp
  qed
qed

lemma atm_loop_funpow:
  "atm_loop i rep amt bal = ((\<lambda>b. b + scast amt) ^^ atm_iterations i rep) bal"
proof (induction i rep amt bal rule: atm_loop.induct)
  case (1 i rep amt bal)
  show ?case
  proof (cases "i < rep")
    case True
    with 1 show ?thesis
      by (subst atm_loop.simps, subst atm_iterations.simps)
         (simp add: funpow_Suc_right del: funpow.simps)
  next
    case False
    then show ?thesis by (subst atm_loop.simps, subst atm_iterations.simps) simp
  qed
qed

lemma unat_negative: "sint (r :: long) < 0 \<Longrightarrow> int (unat r) = 2 ^ 64 + sint r"
proof -
  assume neg: "sint r < 0"
  have lo: "- (2 ^ 63) \<le> sint r" using sint_ge [of r] by simp
  have "uint r = take_bit 64 (sint r)" by (simp add: uint_sint)
  also have "\<dots> = sint r mod 2 ^ 64" by (simp add: take_bit_eq_mod)
  also have "\<dots> = (2 ^ 64 + sint r) mod 2 ^ 64" by simp
  also have "\<dots> = 2 ^ 64 + sint r" using neg lo by (intro mod_pos_pos_trivial) auto
  finally show ?thesis by simp
qed

section \<open>Properties of the operation count\<close>

lemma nr_ops_loop_sentinel:
  "\<exists>e \<in> set es. name e = None \<Longrightarrow>
     nr_ops_loop es nr = Inr (nr + of_nat (length (takeWhile (\<lambda>e. name e \<noteq> None) es)))"
proof (induction es arbitrary: nr)
  case Nil
  then show ?case by simp
next
  case (Cons e es)
  show ?case
  proof (cases "name e = None")
    case True
    then show ?thesis by simp
  next
    case False
    with Cons.prems have "\<exists>e \<in> set es. name e = None" by auto
    from Cons.IH [OF this, of "nr + 1"] False show ?thesis by (simp add: add.assoc)
  qed
qed

lemma sint_of_nat_cint: "n < 2 ^ 31 \<Longrightarrow> sint (of_nat n :: cint) = int n"
proof -
  assume "n < 2 ^ 31"
  then have "int n < 2 ^ 31" by (metis of_nat_less_numeral_power_cancel_iff)
  then have "signed_take_bit 31 (int n) = int n"
    by (intro signed_take_bit_int_eq_self) auto
  then show ?thesis by (simp add: signed_of_nat)
qed

section \<open>Serial execution, in closed form\<close>

lemma after_atms_Nil: "after_atms [] st = st"
  by (simp add: after_atms_def total_def)

lemma after_atms_Cons: "after_atms (e # es) st = after_atms es (after_atms [e] st)"
  by (simp add: after_atms_def total_def algebra_simps)

lemma atm_after:
  "account e = Some Global_account \<Longrightarrow> atm e st = Inr (after_atms [e] st)"
  by (simp add: atm_def after_atms_def total_def atm_loop_closed Let_def)

lemma named_length_le: "length (named es) \<le> length es"
  by (simp add: named_def length_takeWhile_le)

lemma named_nth: "k < length (named es) \<Longrightarrow> named es ! k = es ! k"
  by (simp add: named_def takeWhile_nth)

lemma nr_ops_wf: "wf_table es \<Longrightarrow> nr_ops (Some es) = Inr (of_nat (length (named es)))"
  by (simp add: nr_ops_def wf_table_def named_def nr_ops_loop_sentinel)

lemma sless_of_nat: "k < 2 ^ 31 \<Longrightarrow> n < 2 ^ 31 \<Longrightarrow> (of_nat k :: cint) <s of_nat n \<longleftrightarrow> k < n"
  by (simp add: word_sless_alt sint_of_nat_cint)

lemma op_at_named:
  "k < length (named (ops st)) \<Longrightarrow> length (named (ops st)) < 2 ^ 31 \<Longrightarrow>
     op_at st (of_nat k) = Inr (named (ops st) ! k)"
  using named_length_le [of "ops st"]
  by (simp add: op_at_def sint_of_nat_cint named_nth)

lemma spawn_serial_loop_after:
  assumes "wf_table (ops st)" and "k \<le> length (named (ops st))"
  shows "spawn_serial_loop (of_nat k) (of_nat (length (named (ops st)))) st =
           Inr (after_atms (drop k (named (ops st))) st)"
  using assms
proof (induction "length (named (ops st)) - k" arbitrary: k st)
  case 0
  then have "k = length (named (ops st))" by simp
  then show ?case by (subst spawn_serial_loop.simps) (simp add: after_atms_Nil)
next
  case (Suc d)
  let ?n = "length (named (ops st))"
  let ?e = "named (ops st) ! k"
  let ?st = "after_atms [?e] st"
  from Suc have k: "k < ?n" by simp
  from Suc.prems have n: "?n < 2 ^ 31" by (simp add: wf_table_def)
  have acc: "account ?e = Some Global_account"
    using Suc.prems k by (simp add: wf_table_def)
  have same: "ops ?st = ops st" by (simp add: after_atms_def)
  have "spawn_serial_loop (of_nat (Suc k)) (of_nat (length (named (ops ?st)))) ?st =
          Inr (after_atms (drop (Suc k) (named (ops ?st))) ?st)"
    using Suc.hyps Suc.prems k by (intro Suc.hyps(1)) (simp_all add: same)
  then have "spawn_serial_loop (of_nat k + 1) (of_nat ?n) ?st =
          Inr (after_atms (drop (Suc k) (named (ops st))) ?st)"
    by (simp add: same add.commute)
  moreover have "drop k (named (ops st)) = ?e # drop (Suc k) (named (ops st))"
    using k by (simp add: Cons_nth_drop_Suc)
  ultimately show ?case using k n acc
    by (subst spawn_serial_loop.simps)
       (simp add: sless_of_nat op_at_named atm_after after_atms_Cons [symmetric])
qed

lemma spawn_serial_after:
  "wf_table (ops st) \<Longrightarrow> spawn_serial st = Inr (after_atms (named (ops st)) st)"
  using spawn_serial_loop_after [of st 0] by (simp add: spawn_serial_def nr_ops_wf)

section \<open>The other loops, in closed form\<close>

lemma expected_loop_total:
  assumes "length (named (ops st)) < 2 ^ 31" and "k \<le> length (named (ops st))"
  shows "expected_loop (of_nat k) (of_nat (length (named (ops st)))) st x =
           Inr (x + total (drop k (named (ops st))) * opts.repeat (vars st))"
  using assms
proof (induction "length (named (ops st)) - k" arbitrary: k x)
  case 0
  then show ?case by (subst expected_loop.simps) (simp add: total_def)
next
  case (Suc d)
  let ?n = "length (named (ops st))"
  let ?e = "named (ops st) ! k"
  from Suc have k: "k < ?n" by simp
  have "expected_loop (of_nat (Suc k)) (of_nat ?n) st
          (x + scast (operation.amount ?e) * opts.repeat (vars st)) =
        Inr (x + scast (operation.amount ?e) * opts.repeat (vars st) +
             total (drop (Suc k) (named (ops st))) * opts.repeat (vars st))"
    using Suc.hyps Suc.prems k by (intro Suc.hyps(1)) simp_all
  moreover have "drop k (named (ops st)) = ?e # drop (Suc k) (named (ops st))"
    using k by (simp add: Cons_nth_drop_Suc)
  ultimately show ?case using k Suc.prems
    by (subst expected_loop.simps)
       (simp add: sless_of_nat op_at_named total_def add.commute algebra_simps)
qed

lemma wait_loop_empty: "wait_loop cs = []"
  by (induction cs) simp_all

text \<open>In the parent no call of \<^verbatim>\<open>fork\<close> answers 0.\<close>

lemma spawn_fork_loop_parent:
  assumes "length (named (ops st)) < 2 ^ 31" and "k \<le> length (named (ops st))"
    and "\<forall>j. j < length (named (ops st)) - k \<longrightarrow> \<not> is_child (fork_result sys (fork_calls st + j))"
  shows "spawn_fork_loop (of_nat k) (of_nat (length (named (ops st)))) sys st =
           Inr (st\<lparr>children := [],
                   fork_calls := fork_calls st + (length (named (ops st)) - k)\<rparr>)"
  using assms
proof (induction "length (named (ops st)) - k" arbitrary: k st)
  case 0
  then show ?case by (subst spawn_fork_loop.simps) (simp add: wait_loop_empty)
next
  case (Suc d)
  let ?n = "length (named (ops st))"
  from Suc have k: "k < ?n" by simp
  obtain r st' where f: "fork sys st = (r, st')" by (cases "fork sys st")
  from Suc.prems(3) Suc.hyps(2) have nc: "\<not> is_child (fork_result sys (fork_calls st))"
    by (metis add.right_neutral zero_less_Suc)
  with f have r: "r = fork_result sys (fork_calls st)" and
    st': "ops st' = ops st" "fork_calls st' = Suc (fork_calls st)"
    by (auto simp: fork_def Let_def is_child_def split: fork_result.splits)
  have next_loop: "spawn_fork_loop (of_nat (Suc k)) (of_nat (length (named (ops st')))) sys st' =
      Inr (st'\<lparr>children := [], fork_calls := fork_calls st' + (length (named (ops st')) - Suc k)\<rparr>)"
  proof (rule Suc.hyps(1))
    show "d = length (named (ops st')) - Suc k" using Suc.hyps(2) st' by simp
    show "length (named (ops st')) < 2 ^ 31" using Suc.prems st' by simp
    show "Suc k \<le> length (named (ops st'))" using k st' by simp
    show "\<forall>j<length (named (ops st')) - Suc k. \<not> is_child (fork_result sys (fork_calls st' + j))"
    proof (intro allI impI)
      fix j assume "j < length (named (ops st')) - Suc k"
      then have "Suc j < ?n - k" using st' by simp
      with Suc.prems(3) have "\<not> is_child (fork_result sys (fork_calls st + Suc j))" by blast
      then show "\<not> is_child (fork_result sys (fork_calls st' + j))" using st' by simp
    qed
  qed
  have upd: "st'\<lparr>children := [], fork_calls := fork_calls st' + (?n - Suc k)\<rparr> =
             st\<lparr>children := [], fork_calls := fork_calls st + (?n - k)\<rparr>"
    using f k nc by (auto simp: fork_def Let_def is_child_def split: fork_result.splits)
  show ?case using k Suc.prems(1) f nc r next_loop upd st'
    by (subst spawn_fork_loop.simps)
       (auto simp: sless_of_nat add.commute is_child_def split: fork_result.splits)
qed

lemma fork_child:
  "fork_result sys (fork_calls st) = Fork_child p \<Longrightarrow>
     fork sys st = (Fork_child p,
       st\<lparr>fork_calls := Suc (fork_calls st), pid := p, tid := p, children := []\<rparr>)"
  by (simp add: fork_def Let_def)

lemma spawn_fork_loop_child:
  assumes "length (named (ops st)) < 2 ^ 31" and "k \<le> c" and "c < length (named (ops st))"
    and "\<forall>j. j < c - k \<longrightarrow> \<not> is_child (fork_result sys (fork_calls st + j))"
    and "fork_result sys (fork_calls st + (c - k)) = Fork_child p"
    and "account (named (ops st) ! c) = Some Global_account"
  shows "spawn_fork_loop (of_nat k) (of_nat (length (named (ops st)))) sys st =
           Inr (after_atms [named (ops st) ! c]
                  (st\<lparr>fork_calls := Suc (fork_calls st + (c - k)),
                      pid := p, tid := p, children := []\<rparr>))"
  using assms
proof (induction "c - k" arbitrary: k st)
  case 0
  then have kc: "k = c" by simp
  let ?st = "st\<lparr>fork_calls := Suc (fork_calls st), pid := p, tid := p, children := []\<rparr>"
  have f: "fork sys st = (Fork_child p, ?st)" using 0 by (simp add: fork_child)
  have "op_at ?st (of_nat c) = Inr (named (ops ?st) ! c)"
    using 0 by (intro op_at_named) simp_all
  then show ?case using 0 f kc
    by (subst spawn_fork_loop.simps) (simp add: sless_of_nat atm_after)
next
  case (Suc d)
  let ?n = "length (named (ops st))"
  from Suc have k: "k < c" by simp
  obtain r st' where f: "fork sys st = (r, st')" by (cases "fork sys st")
  from Suc.prems(4) k have nc: "\<not> is_child (fork_result sys (fork_calls st))"
    by (metis add.right_neutral zero_less_diff)
  with f have r: "r = fork_result sys (fork_calls st)" and
    st': "ops st' = ops st" "fork_calls st' = Suc (fork_calls st)"
    by (auto simp: fork_def Let_def is_child_def split: fork_result.splits)
  have next_loop: "spawn_fork_loop (of_nat (Suc k)) (of_nat (length (named (ops st')))) sys st' =
      Inr (after_atms [named (ops st') ! c]
             (st'\<lparr>fork_calls := Suc (fork_calls st' + (c - Suc k)),
                  pid := p, tid := p, children := []\<rparr>))"
  proof (rule Suc.hyps(1))
    show "d = c - Suc k" using Suc.hyps(2) by simp
    show "length (named (ops st')) < 2 ^ 31" using Suc.prems st' by simp
    show "Suc k \<le> c" using k by simp
    show "c < length (named (ops st'))" using Suc.prems st' by simp
    show "\<forall>j<c - Suc k. \<not> is_child (fork_result sys (fork_calls st' + j))"
    proof (intro allI impI)
      fix j assume "j < c - Suc k"
      then have "Suc j < c - k" by simp
      with Suc.prems(4) have "\<not> is_child (fork_result sys (fork_calls st + Suc j))" by blast
      then show "\<not> is_child (fork_result sys (fork_calls st' + j))" using st' by simp
    qed
    show "fork_result sys (fork_calls st' + (c - Suc k)) = Fork_child p"
      using Suc.prems(5) k st' by (simp add: Suc_diff_Suc)
    show "account (named (ops st') ! c) = Some Global_account" using Suc.prems st' by simp
  qed
  have upd: "st'\<lparr>fork_calls := Suc (fork_calls st' + (c - Suc k)), pid := p, tid := p, children := []\<rparr> =
             st\<lparr>fork_calls := Suc (fork_calls st + (c - k)), pid := p, tid := p, children := []\<rparr>"
    using f k nc by (auto simp: fork_def Let_def is_child_def split: fork_result.splits)
  have kn: "k < ?n" using k Suc.prems by simp
  show ?case using kn Suc.prems(1) f nc r next_loop upd st'
    by (subst spawn_fork_loop.simps)
       (auto simp: sless_of_nat add.commute is_child_def split: fork_result.splits)
qed

lemma pthread_create_handle:
  "pthread_create sys e st =
     (handle_of (create_result sys (create_calls st)) e,
      st\<lparr>create_calls := Suc (create_calls st)\<rparr>)"
  by (cases "create_result sys (create_calls st)") (simp_all add: pthread_create_def Let_def)

lemma pthread_create_loop_all:
  assumes "length (named (ops st)) < 2 ^ 31" and "k \<le> length (named (ops st))"
  shows "pthread_create_loop (of_nat k) (of_nat (length (named (ops st)))) sys thread st =
           Inr (thread @ map (\<lambda>j. handle_of (create_result sys (create_calls st + (j - k)))
                                     (named (ops st) ! j)) [k..<length (named (ops st))],
                st\<lparr>create_calls := create_calls st + (length (named (ops st)) - k)\<rparr>)"
  using assms
proof (induction "length (named (ops st)) - k" arbitrary: k st thread)
  case 0
  then show ?case by (subst pthread_create_loop.simps) simp
next
  case (Suc d)
  let ?n = "length (named (ops st))"
  let ?h = "handle_of (create_result sys (create_calls st)) (named (ops st) ! k)"
  let ?st = "st\<lparr>create_calls := Suc (create_calls st)\<rparr>"
  from Suc have k: "k < ?n" by simp
  have "pthread_create_loop (of_nat (Suc k)) (of_nat (length (named (ops ?st)))) sys (thread @ [?h]) ?st =
          Inr ((thread @ [?h]) @ map (\<lambda>j. handle_of (create_result sys (create_calls ?st + (j - Suc k)))
                                     (named (ops ?st) ! j)) [Suc k..<length (named (ops ?st))],
               ?st\<lparr>create_calls := create_calls ?st + (length (named (ops ?st)) - Suc k)\<rparr>)"
    using Suc.hyps Suc.prems k by (intro Suc.hyps(1)) simp_all
  moreover have "[k..<?n] = k # [Suc k..<?n]" using k by (simp add: upt_conv_Cons)
  moreover have "map (\<lambda>j. handle_of (create_result sys (Suc (create_calls st + (j - Suc k)))) (named (ops st) ! j)) [Suc k..<?n]
     = map (\<lambda>j. handle_of (create_result sys (create_calls st + (j - k))) (named (ops st) ! j)) [Suc k..<?n]"
  proof (rule map_cong [OF refl])
    fix x assume "x \<in> set [Suc k..<?n]"
    then have "Suc k \<le> x" by simp
    then have "Suc (create_calls st + (x - Suc k)) = create_calls st + (x - k)" by arith
    then show "handle_of (create_result sys (Suc (create_calls st + (x - Suc k)))) (named (ops st) ! x)
       = handle_of (create_result sys (create_calls st + (x - k))) (named (ops st) ! x)"
      by (simp only:)
  qed
  ultimately show ?case using k Suc.prems
    by (subst pthread_create_loop.simps)
       (simp add: sless_of_nat op_at_named pthread_create_handle add.commute Suc_diff_Suc)
qed

section \<open>Reading the options\<close>

lemma parse_opts_Inr:
  "parse_opts argv st = Inr st1 \<Longrightarrow>
     st1 = st\<lparr>vars := vars st1, stderr := stderr st @ diagnostics argv\<rparr>"
proof (induction argv st rule: parse_opts.induct)
  case (1 st)
  then show ?case by simp
next
  case (2 opt optarg diag rest st)
  then show ?case
    by (auto simp: usage_def getopt_long_def rejected_def split: if_splits)
qed

lemma parse_opts_Inl:
  "parse_opts argv st = Inl (f, st') \<Longrightarrow>
     f = Exit_failure \<and>
     st' = st\<lparr>vars := vars st', stderr := stderr st @ diagnostics argv @ usage_text\<rparr>"
proof (induction argv st rule: parse_opts.induct)
  case (1 st)
  then show ?case by simp
next
  case (2 opt optarg diag rest st)
  then show ?case
    by (auto simp: usage_def getopt_long_def rejected_def split: if_splits)
qed

lemma parse_opts_accepts:
  "(\<forall>ev \<in> set argv. \<not> rejected ev) \<longleftrightarrow> (\<exists>st1. parse_opts argv st = Inr st1)"
proof (induction argv st rule: parse_opts.induct)
  case (1 st)
  then show ?case by simp
next
  case (2 opt optarg diag rest st)
  then show ?case
    by (auto simp: usage_def rejected_def split: if_splits)
qed

section \<open>The driver, in closed form\<close>

lemma total_times:
  "total es * r = (\<Sum>e\<leftarrow>es. scast (operation.amount e) * r)"
  by (simp add: total_def sum_list_mult_const)

lemma parse_opts_fields:
  assumes "parse_opts argv st = Inr st1"
  shows "ops st1 = ops st" and "stdout st1 = stdout st"
    and "stderr st1 = stderr st @ diagnostics argv"
    and "pid st1 = pid st" and "tid st1 = tid st" and "children st1 = children st"
    and "fork_calls st1 = fork_calls st" and "create_calls st1 = create_calls st"
    and "global_account st1 = global_account st"
proof -
  have eq: "st1 = st\<lparr>vars := vars st1, stderr := stderr st @ diagnostics argv\<rparr>"
    using assms by (rule parse_opts_Inr)
  show "ops st1 = ops st" by (subst eq) simp
  show "stdout st1 = stdout st" by (subst eq) simp
  show "stderr st1 = stderr st @ diagnostics argv" by (subst eq) simp
  show "pid st1 = pid st" by (subst eq) simp
  show "tid st1 = tid st" by (subst eq) simp
  show "children st1 = children st" by (subst eq) simp
  show "fork_calls st1 = fork_calls st" by (subst eq) simp
  show "create_calls st1 = create_calls st" by (subst eq) simp
  show "global_account st1 = global_account st" by (subst eq) simp
qed

lemma main_after_parse:
  assumes "wf_table (ops st)" and "parse_opts argv st = Inr st1"
  shows "main argv sys st =
    (case call_lib (opts.lib (vars st1)) sys (start st1) of
       Inl e \<Rightarrow> Inl e
     | Inr st3 \<Rightarrow>
         Inr (st3\<lparr>stdout := stdout st3 @
               [Start_balance (opts.amount (vars st3)),
                End_balance (balance (global_account st3)),
                Expected (opts.amount (vars st1) +
                          total (named (ops st)) * opts.repeat (vars st1))]\<rparr>))"
proof -
  have same: "ops st1 = ops st" using assms(2) by (rule parse_opts_fields)
  have n: "length (named (ops (start st1))) < 2 ^ 31" "ops (start st1) = ops st"
    "vars (start st1) = vars st1"
    using assms(1) same by (simp_all add: wf_table_def start_def)
  have "expected_loop (of_nat 0) (of_nat (length (named (ops (start st1))))) (start st1)
          (opts.amount (vars st1)) =
        Inr (opts.amount (vars st1) +
             total (drop 0 (named (ops (start st1)))) * opts.repeat (vars (start st1)))"
    using n by (intro expected_loop_total) simp_all
  then show ?thesis using assms n
    by (simp add: main_def nr_ops_wf start_def Let_def)
qed

lemma named_ops_init:
  "named ops_init =
     [\<lparr>account = Some Global_account, amount = 6, name = Some ''Montreal''\<rparr>,
      \<lparr>account = Some Global_account, amount = - 4, name = Some ''Paris''\<rparr>,
      \<lparr>account = Some Global_account, amount = 7, name = Some ''Johannesburg''\<rparr>,
      \<lparr>account = Some Global_account, amount = - 3, name = Some ''Bangalore''\<rparr>]"
  by (simp add: named_def ops_init_def)

lemma wf_ops_init: "wf_table ops_init"
  unfolding wf_table_def named_ops_init by (simp add: ops_init_def)

lemma total_ops_init: "total (named ops_init) = 6"
  by (simp add: named_ops_init total_def)

lemma sint_affine:
  assumes "- (2 ^ 63) \<le> sint (s :: long) + sint (r :: long) * k" and "sint s + sint r * k < 2 ^ 63"
  shows "sint (s + r * word_of_int k) = sint s + sint r * k"
proof -
  have "s + r * word_of_int k = (word_of_int (sint s + sint r * k) :: long)" by simp
  then have "sint (s + r * word_of_int k) = signed_take_bit 63 (sint s + sint r * k)"
    by (simp only: sint_sbintrunc') simp
  also have "\<dots> = sint s + sint r * k"
    using assms by (intro signed_take_bit_int_eq_self) simp_all
  finally show ?thesis .
qed

lemma start_fields:
  "ops (start st) = ops st" "vars (start st) = vars st" "stdout (start st) = stdout st"
  "pid (start st) = pid st" "tid (start st) = tid st"
  "balance (global_account (start st)) = opts.amount (vars st)"
  "fork_calls (start st) = fork_calls st" "create_calls (start st) = create_calls st"
  "stderr (start st) = stderr st"
  by (simp_all add: start_def)

lemma boot_fields:
  "ops (boot p) = ops_init" "vars (boot p) = vars_init" "stdout (boot p) = []"
  "stderr (boot p) = []" "pid (boot p) = p" "tid (boot p) = p" "children (boot p) = []"
  "fork_calls (boot p) = 0" "create_calls (boot p) = 0"
  "global_account (boot p) = \<lparr>balance = 0\<rparr>"
  by (simp_all add: boot_def)

lemmas atol_defs = atol_def isspace_def isdigit_def

lemma main_parent_fork:
  assumes "wf_table (ops st)" and "parse_opts argv st = Inr st1"
    and "opts.lib (vars st1) = Spawn_fork" and "fork_calls st = 0"
    and "\<forall>k < length (named (ops st)). \<not> is_child (fork_result sys k)"
  shows "main argv sys st =
     Inr (st1\<lparr>global_account := (global_account st1)\<lparr>balance := opts.amount (vars st1)\<rparr>,
             children := [], fork_calls := length (named (ops st)),
             stdout := stdout st @
               [Start_balance (opts.amount (vars st1)),
                End_balance (opts.amount (vars st1)),
                Expected (opts.amount (vars st1) +
                          total (named (ops st)) * opts.repeat (vars st1))]\<rparr>)"
proof -
  have f: "ops st1 = ops st" "stdout st1 = stdout st" "fork_calls st1 = 0"
    using parse_opts_fields [OF assms(2)] assms(4) by simp_all
  have wf1: "wf_table (ops (start st1))" using f assms(1) by (simp add: start_fields)
  have "spawn_fork_loop (of_nat 0) (of_nat (length (named (ops (start st1))))) sys (start st1) =
          Inr ((start st1)\<lparr>children := [],
                  fork_calls := fork_calls (start st1) + (length (named (ops (start st1))) - 0)\<rparr>)"
    using assms(1,5) f by (intro spawn_fork_loop_parent) (simp_all add: start_fields wf_table_def)
  then have "spawn_fork sys (start st1) =
      Inr ((start st1)\<lparr>children := [], fork_calls := length (named (ops st))\<rparr>)"
    using wf1 f by (simp add: spawn_fork_def nr_ops_wf start_fields)
  then show ?thesis using assms(3) f
    by (simp add: main_after_parse [OF assms(1,2)] call_lib_def start_def)
qed

lemma child_os_fields:
  "fork_result (child_os sys k p) j = (if j = k then Fork_child p else fork_result sys j)"
  by (simp add: child_os_def)

lemma main_child_fork:
  assumes "wf_table (ops st)" and "parse_opts argv st = Inr st1"
    and "opts.lib (vars st1) = Spawn_fork" and "fork_calls st = 0"
    and "\<forall>j < k. \<not> is_child (fork_result sys j)"
    and "k < length (named (ops st))" and "fork_result sys k = Fork_child p"
  shows "main argv sys st =
     Inr (st1\<lparr>global_account := (global_account st1)
               \<lparr>balance := opts.amount (vars st1) +
                   opts.repeat (vars st1) * scast (operation.amount (ops st ! k))\<rparr>,
             children := [], fork_calls := Suc k, pid := p, tid := p,
             stdout := stdout st @
               [Atm_balance (name (ops st ! k))
                  (opts.amount (vars st1) +
                   opts.repeat (vars st1) * scast (operation.amount (ops st ! k))) p p,
                Start_balance (opts.amount (vars st1)),
                End_balance (opts.amount (vars st1) +
                   opts.repeat (vars st1) * scast (operation.amount (ops st ! k))),
                Expected (opts.amount (vars st1) +
                          total (named (ops st)) * opts.repeat (vars st1))]\<rparr>)"
proof -
  have f: "ops st1 = ops st" "stdout st1 = stdout st" "fork_calls st1 = 0"
    using parse_opts_fields [OF assms(2)] assms(4) by simp_all
  have wf1: "wf_table (ops (start st1))" using f assms(1) by (simp add: start_fields)
  have acc: "account (named (ops st) ! k) = Some Global_account"
    using assms(1,6) by (simp add: wf_table_def)
  have "spawn_fork_loop (of_nat 0) (of_nat (length (named (ops (start st1))))) sys (start st1) =
          Inr (after_atms [named (ops (start st1)) ! k]
                ((start st1)\<lparr>fork_calls := Suc (fork_calls (start st1) + (k - 0)),
                     pid := p, tid := p, children := []\<rparr>))"
    using assms(1,5,6,7) f acc
    by (intro spawn_fork_loop_child) (simp_all add: start_fields wf_table_def)
  then have "spawn_fork sys (start st1) =
      Inr (after_atms [named (ops st) ! k]
            ((start st1)\<lparr>fork_calls := Suc k, pid := p, tid := p, children := []\<rparr>))"
    using wf1 f by (simp add: spawn_fork_def nr_ops_wf start_fields)
  then show ?thesis using assms(3,6) f
    by (simp add: main_after_parse [OF assms(1,2)] call_lib_def start_def after_atms_def
          total_def named_nth)
qed

lemma sint_affine_scast:
  assumes "- (2 ^ 63) \<le> sint (s :: long) + sint (r :: long) * sint (a :: cint)"
    and "sint s + sint r * sint a < 2 ^ 63"
  shows "sint (s + r * scast a) = sint s + sint r * sint a"
  using sint_affine [OF assms] by simp

lemma is_child_os_ok: "\<not> is_child (fork_result os_ok k)"
  by (simp add: os_ok_def is_child_def)

lemma is_child_os_failing: "\<not> is_child (fork_result os_failing k)"
  by (simp add: os_failing_def is_child_def)

lemma parse_opts_default: "parse_opts [] st = Inr st"
  by simp

lemma parse_opts_lib_fork:
  "parse_opts [(CHR ''l'', ''fork'', [])] st = Inr (st\<lparr>vars := (vars st)\<lparr>opts.lib := Spawn_fork\<rparr>\<rparr>)"
  by (simp add: getopt_long_def)

lemma main_serial:
  assumes "wf_table (ops st)" and "parse_opts argv st = Inr st1"
    and "opts.lib (vars st1) = Spawn_serial"
  shows "main argv sys st =
      Inr ((after_atms (named (ops st)) (start st1))
        \<lparr>stdout := stdout (after_atms (named (ops st)) (start st1)) @
           [Start_balance (opts.amount (vars st1)),
            End_balance (opts.amount (vars st1) + opts.repeat (vars st1) * total (named (ops st))),
            Expected (opts.amount (vars st1) + total (named (ops st)) * opts.repeat (vars st1))]\<rparr>)"
proof -
  have f: "ops st1 = ops st" using parse_opts_fields [OF assms(2)] by simp
  have wf1: "wf_table (ops (start st1))" using f assms(1) by (simp add: start_fields)
  have ser: "spawn_serial (start st1) = Inr (after_atms (named (ops st)) (start st1))"
    using spawn_serial_after [OF wf1] f by (simp add: start_fields)
  show ?thesis using assms(3) ser
    by (simp add: main_after_parse [OF assms(1,2)] call_lib_def after_atms_def start_fields)
qed

lemma upt4: "[0..<4] = [0, 1, 2, 3]"
  by (simp add: upt_rec)

lemma parse_opts_rejects:
  "\<exists>ev \<in> set argv. rejected ev \<Longrightarrow>
     \<exists>st'. parse_opts argv st = Inl (Exit_failure, st') \<and>
       st' = st\<lparr>vars := vars st', stderr := stderr st @ diagnostics argv @ usage_text\<rparr>"
proof -
  assume "\<exists>ev \<in> set argv. rejected ev"
  then have "\<not> (\<exists>st1. parse_opts argv st = Inr st1)"
    using parse_opts_accepts [of argv st] by blast
  then obtain f st' where e: "parse_opts argv st = Inl (f, st')"
    by (cases "parse_opts argv st") auto
  from parse_opts_Inl [OF e] e show ?thesis by blast
qed

section \<open>Threads\<close>

text \<open>
  A thread that is never interrupted does what the uninterrupted \<^verbatim>\<open>atm\<close> does.
\<close>

lemma run_worker_from:
  assumes "account e = Some Global_account" and "i \<le> opts.repeat (vars st)"
  shows "run_worker \<lparr>w_op = e, w_i = i, w_pc = At_test, w_tid = t\<rparr> st =
           Inr (\<lparr>w_op = e, w_i = opts.repeat (vars st), w_pc = Returned, w_tid = t\<rparr>,
                st\<lparr>global_account := (global_account st)
                     \<lparr>balance := balance (global_account st) +
                        (opts.repeat (vars st) - i) * scast (operation.amount e)\<rparr>,
                   stdout := stdout st @
                     [Atm_balance (name e)
                        (balance (global_account st) +
                         (opts.repeat (vars st) - i) * scast (operation.amount e))
                        (pid st) t]\<rparr>)"
  using assms
proof (induction "unat (opts.repeat (vars st)) - unat i" arbitrary: i st)
  case 0
  then have "unat i = unat (opts.repeat (vars st))" by (simp add: word_le_nat_alt)
  then have i: "i = opts.repeat (vars st)" by (rule word_unat_eq_iff [THEN iffD2])
  show ?case using 0(2)
    by (subst run_worker.simps, simp add: atm_step_def i,
        subst run_worker.simps, simp add: atm_step_def,
        subst run_worker.simps, simp)
next
  case (Suc d)
  let ?r = "opts.repeat (vars st)"
  let ?st = "st\<lparr>global_account := (global_account st)
               \<lparr>balance := balance (global_account st) + scast (operation.amount e)\<rparr>\<rparr>"
  from Suc.hyps(2) have lt: "i < ?r" by (simp add: word_less_nat_alt)
  then have le: "i + 1 \<le> opts.repeat (vars ?st)" by (simp add: inc_le)
  have d: "d = unat (opts.repeat (vars ?st)) - unat (i + 1)"
    using Suc.hyps(2) lt by (simp add: unat_inc_less)
  note ih = Suc.hyps(1) [OF d Suc.prems(1) le]
  have two: "run_worker \<lparr>w_op = e, w_i = i, w_pc = At_test, w_tid = t\<rparr> st =
             run_worker \<lparr>w_op = e, w_i = i + 1, w_pc = At_test, w_tid = t\<rparr> ?st"
    using Suc.prems(1) lt
    by (subst run_worker.simps, simp add: atm_step_def,
        subst run_worker.simps, simp add: atm_step_def)
  show ?case unfolding two ih by (simp add: algebra_simps)
qed

lemma run_worker_atm:
  assumes "account e = Some Global_account"
  shows "run_worker \<lparr>w_op = e, w_i = 0, w_pc = At_test, w_tid = tid st\<rparr> st =
           Inr (\<lparr>w_op = e, w_i = opts.repeat (vars st), w_pc = Returned, w_tid = tid st\<rparr>,
                after_atms [e] st)"
  using run_worker_from [OF assms, of 0 st "tid st"]
  by (simp add: after_atms_def total_def)

text \<open>
  With one repetition and threads that run one after the other the end balance is the
  expected one; under the alternating schedule the addition of the first thread is
  overwritten by the second and the end balance is 6 short. The end balance of the
  strategy \<^verbatim>\<open>pthread\<close> depends on the schedule.
\<close>

lemma lost_update:
  "written (main [(CHR ''r'', ''1'', []), (CHR ''l'', ''pthread'', [])] os_ok (boot 4242)) =
     [Atm_balance (Some ''Montreal'') 100000006 4242 2000,
      Atm_balance (Some ''Paris'') 100000002 4242 2001,
      Atm_balance (Some ''Johannesburg'') 100000009 4242 2002,
      Atm_balance (Some ''Bangalore'') 100000006 4242 2003,
      Start_balance 100000000, End_balance 100000006, Expected 100000006] \<and>
   written (main [(CHR ''r'', ''1'', []), (CHR ''l'', ''pthread'', [])] os_interleaved (boot 4242)) =
     [Atm_balance (Some ''Montreal'') 99999996 4242 2000,
      Atm_balance (Some ''Paris'') 99999996 4242 2001,
      Atm_balance (Some ''Johannesburg'') 100000003 4242 2002,
      Atm_balance (Some ''Bangalore'') 100000000 4242 2003,
      Start_balance 100000000, End_balance 100000000, Expected 100000006]"
  by code_simp

section \<open>The claims\<close>

text \<open>
  C1. Serial strategy, table of the program, any start balance \<open>S\<close> and repeat count
  \<open>R\<close> read from the command line: \<^verbatim>\<open>main\<close> returns, the final balance is
  \<open>S + R * (6 - 4 + 7 - 3)\<close> in the arithmetic of \<^verbatim>\<open>long\<close>, the driver prints it
  as end balance and the same value as expected balance, after the four lines of the
  workers. The result does not depend on the operating system's answers, so two runs
  with the same configuration end with the same balance. Read as integers, the final
  balance is \<open>S + 6 R\<close> whenever that number is a \<^verbatim>\<open>long\<close>.
\<close>

theorem serial_final_balance:
  assumes "ops st = ops_init" and "parse_opts argv st = Inr st1"
    and "opts.lib (vars st1) = Spawn_serial"
  shows "\<exists>st'. main argv sys st = Inr st' \<and>
           balance (global_account st') =
             opts.amount (vars st1) + opts.repeat (vars st1) * (6 + (- 4) + 7 + (- 3)) \<and>
           stdout st' = stdout st @
             atm_lines (opts.amount (vars st1)) (opts.repeat (vars st1)) (pid st) (tid st)
               (named ops_init) @
             [Start_balance (opts.amount (vars st1)),
              End_balance (opts.amount (vars st1) + opts.repeat (vars st1) * 6),
              Expected (opts.amount (vars st1) + opts.repeat (vars st1) * 6)] \<and>
           (\<forall>sys'. main argv sys' st = main argv sys st) \<and>
           (- (2 ^ 63) \<le> sint (opts.amount (vars st1)) + sint (opts.repeat (vars st1)) * 6 \<and>
            sint (opts.amount (vars st1)) + sint (opts.repeat (vars st1)) * 6 < 2 ^ 63 \<longrightarrow>
              sint (balance (global_account st')) =
                sint (opts.amount (vars st1)) + sint (opts.repeat (vars st1)) * 6)"
proof -
  let ?S = "opts.amount (vars st1)" and ?R = "opts.repeat (vars st1)"
  have wf: "wf_table (ops st)" using assms(1) by (simp add: wf_ops_init)
  have f: "ops st1 = ops_init" "stdout st1 = stdout st" "pid st1 = pid st" "tid st1 = tid st"
    using parse_opts_fields [OF assms(2)] assms(1) by simp_all
  have wf1: "wf_table (ops (start st1))" using f by (simp add: start_fields wf_ops_init)
  have ser: "spawn_serial (start st1) = Inr (after_atms (named ops_init) (start st1))"
    using spawn_serial_after [OF wf1] f by (simp add: start_fields)
  have m: "\<And>sys. main argv sys st =
      Inr ((after_atms (named ops_init) (start st1))
        \<lparr>stdout := stdout (after_atms (named ops_init) (start st1)) @
           [Start_balance ?S, End_balance (?S + ?R * 6), Expected (?S + ?R * 6)]\<rparr>)"
    using assms(1,3) ser
    by (simp add: main_after_parse [OF wf assms(2)] call_lib_def total_ops_init
          after_atms_def start_fields mult.commute)
  have aff: "- (2 ^ 63) \<le> sint ?S + sint ?R * 6 \<Longrightarrow> sint ?S + sint ?R * 6 < 2 ^ 63 \<Longrightarrow>
      sint (?S + ?R * 6) = sint ?S + sint ?R * 6"
    using sint_affine [of ?S ?R 6] by simp
  show ?thesis
    by (rule exI, intro conjI, rule m)
       (simp_all add: m after_atms_def start_fields total_ops_init f aff)
qed

theorem serial_final_balance_witness:
  "ops (boot 4242) = ops_init \<and>
   parse_opts [(CHR ''a'', ''100'', []), (CHR ''r'', ''3'', [])] (boot 4242) =
     Inr ((boot 4242)\<lparr>vars := \<lparr>amount = 100, repeat = 3, lib = Spawn_serial\<rparr>\<rparr>) \<and>
   - (2 ^ 63) \<le> sint (100 :: long) + sint (3 :: long) * 6 \<and>
   sint (100 :: long) + sint (3 :: long) * 6 < 2 ^ 63 \<and>
   (\<exists>st'. main [(CHR ''a'', ''100'', []), (CHR ''r'', ''3'', [])] os_ok (boot 4242) = Inr st' \<and>
      balance (global_account st') = 118 \<and>
      sint (balance (global_account st')) = 118 \<and>
      stdout st' =
        [Atm_balance (Some ''Montreal'') 118 4242 4242,
         Atm_balance (Some ''Paris'') 106 4242 4242,
         Atm_balance (Some ''Johannesburg'') 127 4242 4242,
         Atm_balance (Some ''Bangalore'') 118 4242 4242,
         Start_balance 100, End_balance 118, Expected 118])"
proof -
  let ?argv = "[(CHR ''a'', ''100'', []), (CHR ''r'', ''3'', [])]"
  let ?st1 = "(boot 4242)\<lparr>vars := \<lparr>amount = 100, repeat = 3, lib = Spawn_serial\<rparr>\<rparr>"
  have o: "ops (boot 4242) = ops_init" by (simp add: boot_fields)
  have p: "parse_opts ?argv (boot 4242) = Inr ?st1"
    by (simp add: atol_defs boot_def vars_init_def getopt_long_def)
  have l: "opts.lib (vars ?st1) = Spawn_serial" by simp
  from serial_final_balance [OF o p l, of os_ok]
  obtain st' where "main ?argv os_ok (boot 4242) = Inr st'"
    and "balance (global_account st') = 118"
    and "stdout st' =
        [Atm_balance (Some ''Montreal'') 118 4242 4242,
         Atm_balance (Some ''Paris'') 106 4242 4242,
         Atm_balance (Some ''Johannesburg'') 127 4242 4242,
         Atm_balance (Some ''Bangalore'') 118 4242 4242,
         Start_balance 100, End_balance 118, Expected 118]"
    and "sint (balance (global_account st')) = 118"
    by (auto simp: boot_fields named_ops_init)
  with o p show ?thesis by auto
qed

text \<open>
  C2. Strategy \<^verbatim>\<open>fork\<close>, any table the program can run on, any start balance
  \<open>S\<close> and repeat count \<open>R\<close>. In the parent (the process to which no call of
  \<^verbatim>\<open>fork\<close> answers 0) \<^verbatim>\<open>main\<close> returns with the balance \<open>S\<close> and prints
  \<open>S\<close> as end balance. The child made by the \<open>k\<close>-th call prints the balance
  \<open>S + R * amount\<close> of its operation \<open>k\<close> (in \<^verbatim>\<open>long\<close>; as integers whenever
  that number is a \<^verbatim>\<open>long\<close>), which is the balance of its own copy.
\<close>

theorem fork_parent_unchanged:
  assumes "wf_table (ops st)" and "parse_opts argv st = Inr st1"
    and "opts.lib (vars st1) = Spawn_fork" and "fork_calls st = 0"
    and "\<forall>k < length (named (ops st)). \<not> is_child (fork_result sys k)"
  shows "(\<exists>st'. main argv sys st = Inr st' \<and>
            balance (global_account st') = opts.amount (vars st1) \<and>
            stdout st' = stdout st @
              [Start_balance (opts.amount (vars st1)),
               End_balance (opts.amount (vars st1)),
               Expected (opts.amount (vars st1) +
                         total (named (ops st)) * opts.repeat (vars st1))]) \<and>
         (\<forall>k p. k < length (named (ops st)) \<and> fork_result sys k = Fork_parent p \<longrightarrow>
            (\<exists>stc. main argv (child_os sys k p) st = Inr stc \<and>
               pid stc = p \<and>
               balance (global_account stc) =
                 opts.amount (vars st1) +
                 opts.repeat (vars st1) * scast (operation.amount (ops st ! k)) \<and>
               stdout stc = stdout st @
                 [Atm_balance (name (ops st ! k))
                    (opts.amount (vars st1) +
                     opts.repeat (vars st1) * scast (operation.amount (ops st ! k))) p p,
                  Start_balance (opts.amount (vars st1)),
                  End_balance (opts.amount (vars st1) +
                     opts.repeat (vars st1) * scast (operation.amount (ops st ! k))),
                  Expected (opts.amount (vars st1) +
                            total (named (ops st)) * opts.repeat (vars st1))] \<and>
               (- (2 ^ 63) \<le> sint (opts.amount (vars st1)) +
                    sint (opts.repeat (vars st1)) * sint (operation.amount (ops st ! k)) \<and>
                sint (opts.amount (vars st1)) +
                    sint (opts.repeat (vars st1)) * sint (operation.amount (ops st ! k)) < 2 ^ 63 \<longrightarrow>
                  sint (balance (global_account stc)) =
                    sint (opts.amount (vars st1)) +
                    sint (opts.repeat (vars st1)) * sint (operation.amount (ops st ! k)))))"
proof (intro conjI allI impI)
  show "\<exists>st'. main argv sys st = Inr st' \<and>
            balance (global_account st') = opts.amount (vars st1) \<and>
            stdout st' = stdout st @
              [Start_balance (opts.amount (vars st1)),
               End_balance (opts.amount (vars st1)),
               Expected (opts.amount (vars st1) +
                         total (named (ops st)) * opts.repeat (vars st1))]"
    by (simp add: main_parent_fork [OF assms])
next
  fix k p
  assume kp: "k < length (named (ops st)) \<and> fork_result sys k = Fork_parent p"
  let ?sys = "child_os sys k p"
  have before: "\<forall>j < k. \<not> is_child (fork_result ?sys j)"
    using assms(5) kp by (simp add: child_os_fields)
  have at: "fork_result ?sys k = Fork_child p" by (simp add: child_os_fields)
  from kp have k: "k < length (named (ops st))" by simp
  show "\<exists>stc. main argv ?sys st = Inr stc \<and>
               pid stc = p \<and>
               balance (global_account stc) =
                 opts.amount (vars st1) +
                 opts.repeat (vars st1) * scast (operation.amount (ops st ! k)) \<and>
               stdout stc = stdout st @
                 [Atm_balance (name (ops st ! k))
                    (opts.amount (vars st1) +
                     opts.repeat (vars st1) * scast (operation.amount (ops st ! k))) p p,
                  Start_balance (opts.amount (vars st1)),
                  End_balance (opts.amount (vars st1) +
                     opts.repeat (vars st1) * scast (operation.amount (ops st ! k))),
                  Expected (opts.amount (vars st1) +
                            total (named (ops st)) * opts.repeat (vars st1))] \<and>
               (- (2 ^ 63) \<le> sint (opts.amount (vars st1)) +
                    sint (opts.repeat (vars st1)) * sint (operation.amount (ops st ! k)) \<and>
                sint (opts.amount (vars st1)) +
                    sint (opts.repeat (vars st1)) * sint (operation.amount (ops st ! k)) < 2 ^ 63 \<longrightarrow>
                  sint (balance (global_account stc)) =
                    sint (opts.amount (vars st1)) +
                    sint (opts.repeat (vars st1)) * sint (operation.amount (ops st ! k)))"
    by (simp add: main_child_fork [OF assms(1-4) before k at] sint_affine_scast)
qed

theorem fork_parent_unchanged_witness:
  "wf_table (ops (boot 4242)) \<and>
   parse_opts [(CHR ''a'', ''100'', []), (CHR ''r'', ''3'', []), (CHR ''l'', ''fork'', [])] (boot 4242) =
     Inr ((boot 4242)\<lparr>vars := \<lparr>amount = 100, repeat = 3, lib = Spawn_fork\<rparr>\<rparr>) \<and>
   fork_calls (boot 4242) = 0 \<and>
   fork_result os_ok 0 = Fork_parent 1000 \<and> fork_result os_ok 1 = Fork_parent 1001 \<and>
   fork_result os_ok 2 = Fork_parent 1002 \<and> fork_result os_ok 3 = Fork_parent 1003 \<and>
   (1 :: nat) < length (named (ops (boot 4242))) \<and>
   - (2 ^ 63) \<le> sint (100 :: long) + sint (3 :: long) * sint (- 4 :: cint) \<and>
   sint (100 :: long) + sint (3 :: long) * sint (- 4 :: cint) < 2 ^ 63 \<and>
   (\<exists>st'. main [(CHR ''a'', ''100'', []), (CHR ''r'', ''3'', []), (CHR ''l'', ''fork'', [])] os_ok (boot 4242) =
            Inr st' \<and>
      balance (global_account st') = 100 \<and>
      stdout st' = [Start_balance 100, End_balance 100, Expected 118]) \<and>
   (\<exists>stc. main [(CHR ''a'', ''100'', []), (CHR ''r'', ''3'', []), (CHR ''l'', ''fork'', [])]
             (child_os os_ok 1 1001) (boot 4242) = Inr stc \<and>
      pid stc = 1001 \<and>
      sint (balance (global_account stc)) = 88 \<and>
      stdout stc =
        [Atm_balance (Some ''Paris'') 88 1001 1001,
         Start_balance 100, End_balance 88, Expected 118])"
proof -
  let ?argv = "[(CHR ''a'', ''100'', []), (CHR ''r'', ''3'', []), (CHR ''l'', ''fork'', [])]"
  let ?st1 = "(boot 4242)\<lparr>vars := \<lparr>amount = 100, repeat = 3, lib = Spawn_fork\<rparr>\<rparr>"
  have w: "wf_table (ops (boot 4242))" by (simp add: boot_fields wf_ops_init)
  have p: "parse_opts ?argv (boot 4242) = Inr ?st1"
    by (simp add: atol_defs boot_def vars_init_def getopt_long_def)
  have l: "opts.lib (vars ?st1) = Spawn_fork" by simp
  have z: "fork_calls (boot 4242) = 0" by (simp add: boot_fields)
  have c: "\<forall>k < length (named (ops (boot 4242))). \<not> is_child (fork_result os_ok k)"
    by (simp add: is_child_os_ok)
  have k: "(1 :: nat) < length (named (ops (boot 4242))) \<and> fork_result os_ok 1 = Fork_parent 1001"
    by (simp add: boot_fields named_ops_init os_ok_def)
  note th = fork_parent_unchanged [OF w p l z c]
  from th [THEN conjunct1] have parent:
    "\<exists>st'. main ?argv os_ok (boot 4242) = Inr st' \<and>
       balance (global_account st') = 100 \<and>
       stdout st' = [Start_balance 100, End_balance 100, Expected 118]"
    by (simp add: boot_fields named_ops_init total_def)
  from th [THEN conjunct2, rule_format, OF k] have child:
    "\<exists>stc. main ?argv (child_os os_ok 1 1001) (boot 4242) = Inr stc \<and>
      pid stc = 1001 \<and>
      sint (balance (global_account stc)) = 88 \<and>
      stdout stc =
        [Atm_balance (Some ''Paris'') 88 1001 1001,
         Start_balance 100, End_balance 88, Expected 118]"
    by (auto simp: boot_fields named_def total_def ops_init_def)
  from w p z k parent child show ?thesis by (simp add: os_ok_def)
qed

text \<open>
  C3. For every table the program can run on, and every start balance and repeat
  count read from the command line: the loop of the driver, run in the state in which
  the chosen function is about to be called, yields the start balance plus the sum over
  the operations of amount times repeat (in \<^verbatim>\<open>long\<close>); \<^verbatim>\<open>main\<close> is the call
  of the chosen function in that state followed by the three lines, the last of which
  carries that value whatever the function did.
\<close>

theorem expected_computed_before_strategy:
  assumes "wf_table (ops st)" and "parse_opts argv st = Inr st1"
  shows "expected_loop 0 (of_nat (length (named (ops st)))) (start st1) (opts.amount (vars st1)) =
           Inr (opts.amount (vars st1) +
                (\<Sum>e\<leftarrow>named (ops st). scast (operation.amount e) * opts.repeat (vars st1))) \<and>
         main argv sys st =
           (case call_lib (opts.lib (vars st1)) sys (start st1) of
              Inl e \<Rightarrow> Inl e
            | Inr st3 \<Rightarrow>
                Inr (st3\<lparr>stdout := stdout st3 @
                      [Start_balance (opts.amount (vars st3)),
                       End_balance (balance (global_account st3)),
                       Expected (opts.amount (vars st1) +
                         (\<Sum>e\<leftarrow>named (ops st).
                            scast (operation.amount e) * opts.repeat (vars st1)))]\<rparr>))"
proof -
  have same: "ops st1 = ops st" using assms(2) by (rule parse_opts_fields)
  have n: "length (named (ops (start st1))) < 2 ^ 31" "ops (start st1) = ops st"
    "vars (start st1) = vars st1"
    using assms(1) same by (simp_all add: wf_table_def start_def)
  have "expected_loop (of_nat 0) (of_nat (length (named (ops (start st1))))) (start st1)
          (opts.amount (vars st1)) =
        Inr (opts.amount (vars st1) +
             total (drop 0 (named (ops (start st1)))) * opts.repeat (vars (start st1)))"
    using n by (intro expected_loop_total) simp_all
  then show ?thesis
    unfolding total_times [symmetric]
    by (simp add: n main_after_parse [OF assms])
qed

theorem expected_computed_before_strategy_witness:
  "wf_table (ops (boot 4242)) \<and>
   parse_opts [(CHR ''a'', ''100'', []), (CHR ''r'', ''3'', []), (CHR ''l'', ''pthread'', [])] (boot 4242) =
     Inr ((boot 4242)\<lparr>vars := \<lparr>amount = 100, repeat = 3, lib = Spawn_pthread\<rparr>\<rparr>) \<and>
   expected_loop 0 4
     (start ((boot 4242)\<lparr>vars := \<lparr>amount = 100, repeat = 3, lib = Spawn_pthread\<rparr>\<rparr>)) 100 =
     Inr 118 \<and>
   main [(CHR ''a'', ''100'', []), (CHR ''r'', ''3'', []), (CHR ''l'', ''pthread'', [])] os_ok (boot 4242) =
     (case spawn_pthread os_ok
             (start ((boot 4242)\<lparr>vars := \<lparr>amount = 100, repeat = 3, lib = Spawn_pthread\<rparr>\<rparr>)) of
        Inl e \<Rightarrow> Inl e
      | Inr st3 \<Rightarrow>
          Inr (st3\<lparr>stdout := stdout st3 @
                [Start_balance (opts.amount (vars st3)),
                 End_balance (balance (global_account st3)),
                 Expected 118]\<rparr>))"
proof -
  let ?argv = "[(CHR ''a'', ''100'', []), (CHR ''r'', ''3'', []), (CHR ''l'', ''pthread'', [])]"
  let ?st1 = "(boot 4242)\<lparr>vars := \<lparr>amount = 100, repeat = 3, lib = Spawn_pthread\<rparr>\<rparr>"
  have w: "wf_table (ops (boot 4242))" by (simp add: boot_fields wf_ops_init)
  have p: "parse_opts ?argv (boot 4242) = Inr ?st1"
    by (simp add: atol_defs boot_def vars_init_def getopt_long_def)
  from expected_computed_before_strategy [OF w p, of os_ok] w p show ?thesis
    by (simp add: boot_fields named_ops_init call_lib_def cong: sum.case_cong)
qed

text \<open>
  C4, as stated, fails for a malformed number: \<^verbatim>\<open>banque --repeat abc\<close> is not
  refused. \<^verbatim>\<open>atol\<close> makes 0 of the argument, the serial strategy runs its four
  workers, the driver prints its report, nothing is written to the standard error
  stream and \<^verbatim>\<open>main\<close> returns normally.
\<close>

theorem malformed_number_accepted:
  "main [(CHR ''r'', ''abc'', [])] os_ok (boot 4242) =
     Inr ((boot 4242)
       \<lparr>global_account := \<lparr>balance = 100000000\<rparr>,
        vars := \<lparr>amount = 100000000, repeat = 0, lib = Spawn_serial\<rparr>,
        stdout :=
          [Atm_balance (Some ''Montreal'') 100000000 4242 4242,
           Atm_balance (Some ''Paris'') 100000000 4242 4242,
           Atm_balance (Some ''Johannesburg'') 100000000 4242 4242,
           Atm_balance (Some ''Bangalore'') 100000000 4242 4242,
           Start_balance 100000000, End_balance 100000000, Expected 100000000]\<rparr>)"
proof -
  let ?st1 = "(boot 4242)\<lparr>vars := \<lparr>amount = 100000000, repeat = 0, lib = Spawn_serial\<rparr>\<rparr>"
  have w: "wf_table (ops (boot 4242))" by (simp add: boot_fields wf_ops_init)
  have p: "parse_opts [(CHR ''r'', ''abc'', [])] (boot 4242) = Inr ?st1"
    by (simp add: atol_defs boot_def vars_init_def DEFAULT_AMOUNT_def getopt_long_def)
  have l: "opts.lib (vars ?st1) = Spawn_serial" by simp
  show ?thesis
    by (simp add: main_serial [OF w p l] boot_fields named_ops_init total_def after_atms_def
          start_fields)
       (simp add: boot_def start_def)
qed

text \<open>
  C4, amended. On a table the program can run on: if \<^verbatim>\<open>getopt_long\<close> yields a
  strategy name that is none of \<^verbatim>\<open>serial\<close>, \<^verbatim>\<open>fork\<close>, \<^verbatim>\<open>pthread\<close>,
  \<^verbatim>\<open>pth\<close>, or an option other than \<^verbatim>\<open>r\<close>, \<^verbatim>\<open>a\<close>, \<^verbatim>\<open>l\<close>, then
  \<^verbatim>\<open>main\<close> stops with \<^verbatim>\<open>EXIT_FAILURE\<close>; the standard error stream has
  received what \<^verbatim>\<open>getopt_long\<close> wrote itself in the calls made (its diagnostic
  for an option it does not accept) and then the usage text; nothing is written to the
  standard output, the balance is untouched and no process or thread is created.
  Otherwise the options are accepted. The argument of \<^verbatim>\<open>r\<close> or \<^verbatim>\<open>a\<close> is never
  a reason to stop, whatever its text: the option stores \<^verbatim>\<open>atol\<close> of it and
  parsing goes on.
\<close>

theorem usage_stops_before_strategy:
  assumes "wf_table (ops st)"
  shows "((\<exists>c \<in> set argv. rejected c) \<longrightarrow>
            (\<exists>st'. main argv sys st = Inl (Exit_failure, st') \<and>
               stdout st' = stdout st \<and>
               stderr st' = stderr st @ diagnostics argv @ usage_text \<and>
               global_account st' = global_account st \<and>
               fork_calls st' = fork_calls st \<and>
               create_calls st' = create_calls st)) \<and>
         ((\<forall>c \<in> set argv. \<not> rejected c) \<longrightarrow> (\<exists>st1. parse_opts argv st = Inr st1)) \<and>
         \<not> rejected (CHR ''r'', s, d) \<and> \<not> rejected (CHR ''a'', s, d) \<and>
         (rejected (CHR ''l'', s, d) \<longleftrightarrow> s \<notin> {''serial'', ''fork'', ''pthread'', ''pth''}) \<and>
         parse_opts ((CHR ''r'', s, d) # rest) st =
           parse_opts rest ((getopt_long d st)\<lparr>vars := (vars st)\<lparr>opts.repeat := atol s\<rparr>\<rparr>) \<and>
         parse_opts ((CHR ''a'', s, d) # rest) st =
           parse_opts rest ((getopt_long d st)\<lparr>vars := (vars st)\<lparr>opts.amount := atol s\<rparr>\<rparr>)"
proof (intro conjI impI)
  assume "\<exists>c \<in> set argv. rejected c"
  from parse_opts_rejects [OF this, of st]
  obtain st' where e: "parse_opts argv st = Inl (Exit_failure, st')"
    and st': "st' = st\<lparr>vars := vars st',
                       stderr := stderr st @ diagnostics argv @ usage_text\<rparr>" by blast
  have "stdout st' = stdout st" "stderr st' = stderr st @ diagnostics argv @ usage_text"
    "global_account st' = global_account st" "fork_calls st' = fork_calls st"
    "create_calls st' = create_calls st"
    by (subst st', simp)+
  moreover have "main argv sys st = Inl (Exit_failure, st')"
    using assms e by (simp add: main_def nr_ops_wf)
  ultimately show "\<exists>st'. main argv sys st = Inl (Exit_failure, st') \<and>
               stdout st' = stdout st \<and>
               stderr st' = stderr st @ diagnostics argv @ usage_text \<and>
               global_account st' = global_account st \<and>
               fork_calls st' = fork_calls st \<and>
               create_calls st' = create_calls st"
    by blast
next
  assume "\<forall>c \<in> set argv. \<not> rejected c"
  then show "\<exists>st1. parse_opts argv st = Inr st1"
    using parse_opts_accepts [of argv st] by blast
qed (simp_all add: rejected_def)

theorem usage_stops_before_strategy_witness:
  "wf_table (ops (boot 4242)) \<and>
   (\<exists>c \<in> set [(CHR ''r'', ''5'', []), (CHR ''l'', ''threads'', [])]. rejected c) \<and>
   (\<exists>c \<in> set [(CHR ''?'', [], [''banque: invalid option -- z''])]. rejected c) \<and>
   \<not> rejected (CHR ''r'', ''abc'', []) \<and>
   (\<exists>st'. main [(CHR ''r'', ''5'', []), (CHR ''l'', ''threads'', [])] os_ok (boot 4242) =
            Inl (Exit_failure, st') \<and>
      stdout st' = [] \<and> stderr st' = usage_text \<and> fork_calls st' = 0 \<and> create_calls st' = 0) \<and>
   (\<exists>st'. main [(CHR ''?'', [], [''banque: invalid option -- z''])] os_ok (boot 4242) =
            Inl (Exit_failure, st') \<and>
      stdout st' = [] \<and> stderr st' = ''banque: invalid option -- z'' # usage_text) \<and>
   (\<exists>st1. parse_opts [(CHR ''r'', ''abc'', [])] (boot 4242) = Inr st1)"
proof -
  have w: "wf_table (ops (boot 4242))" by (simp add: boot_fields wf_ops_init)
  have r: "\<exists>c \<in> set [(CHR ''r'', ''5'', []), (CHR ''l'', ''threads'', [])]. rejected c"
    by (simp add: rejected_def)
  have q: "\<exists>c \<in> set [(CHR ''?'', [], [''banque: invalid option -- z''])]. rejected c"
    by (simp add: rejected_def)
  have a: "\<forall>c \<in> set [(CHR ''r'', ''abc'', [])]. \<not> rejected c"
    by (simp add: rejected_def)
  from usage_stops_before_strategy
         [OF w, of "[(CHR ''r'', ''5'', []), (CHR ''l'', ''threads'', [])]" os_ok,
          THEN conjunct1, THEN mp, OF r]
  have m: "\<exists>st'. main [(CHR ''r'', ''5'', []), (CHR ''l'', ''threads'', [])] os_ok (boot 4242) =
            Inl (Exit_failure, st') \<and>
      stdout st' = [] \<and> stderr st' = usage_text \<and> fork_calls st' = 0 \<and> create_calls st' = 0"
    by (auto simp: boot_fields rejected_def)
  from usage_stops_before_strategy
         [OF w, of "[(CHR ''?'', [], [''banque: invalid option -- z''])]" os_ok,
          THEN conjunct1, THEN mp, OF q]
  have d: "\<exists>st'. main [(CHR ''?'', [], [''banque: invalid option -- z''])] os_ok (boot 4242) =
            Inl (Exit_failure, st') \<and>
      stdout st' = [] \<and> stderr st' = ''banque: invalid option -- z'' # usage_text"
    by (auto simp: boot_fields rejected_def)
  from usage_stops_before_strategy
         [OF w, of "[(CHR ''r'', ''abc'', [])]", THEN conjunct2, THEN conjunct1, THEN mp, OF a]
  have p: "\<exists>st1. parse_opts [(CHR ''r'', ''abc'', [])] (boot 4242) = Inr st1" .
  from w r q a m d p show ?thesis by simp
qed

text \<open>
  C5, as stated, fails: in the run \<^verbatim>\<open>banque --lib fork\<close> where every call of
  \<^verbatim>\<open>fork\<close> returns -1, the program calls \<^verbatim>\<open>fork\<close> four times, creates no
  child, writes nothing to the standard error stream, prints the report of the driver
  and returns from \<^verbatim>\<open>main\<close> normally. The failures are not fatal; they go
  unnoticed.
\<close>

theorem fork_failure_ignored:
  "main [(CHR ''l'', ''fork'', [])] os_failing (boot 4242) =
     Inr ((boot 4242)
       \<lparr>global_account := \<lparr>balance = 100000000\<rparr>,
        vars := \<lparr>amount = 100000000, repeat = 10000000, lib = Spawn_fork\<rparr>,
        stdout := [Start_balance 100000000, End_balance 100000000, Expected 160000000],
        fork_calls := 4\<rparr>)"
proof -
  let ?st1 = "(boot 4242)\<lparr>vars := (vars (boot 4242))\<lparr>opts.lib := Spawn_fork\<rparr>\<rparr>"
  have w: "wf_table (ops (boot 4242))" by (simp add: boot_fields wf_ops_init)
  have l: "opts.lib (vars ?st1) = Spawn_fork" by simp
  have z: "fork_calls (boot 4242) = 0" by (simp add: boot_fields)
  have c: "\<forall>k < length (named (ops (boot 4242))). \<not> is_child (fork_result os_failing k)"
    by (simp add: is_child_os_failing)
  show ?thesis
    by (simp add: main_parent_fork [OF w parse_opts_lib_fork l z c] boot_fields named_ops_init
          total_def)
       (simp add: boot_def vars_init_def DEFAULT_AMOUNT_def DEFAULT_REPEAT_def)
qed

text \<open>
  C5, amended. Neither strategy looks at a failure to create an execution unit, and
  neither tries again. On a table the program can run on and whatever calls of
  \<^verbatim>\<open>fork\<close> fail, the parent calls \<^verbatim>\<open>fork\<close> once per operation, returns from
  \<^verbatim>\<open>main\<close> normally and prints the report of the driver, and nothing is written
  to the standard error stream once the options are read. The first loop of
  \<^verbatim>\<open>spawn_pthread\<close> calls \<^verbatim>\<open>pthread_create\<close> once per operation whatever the
  calls return, and every call that succeeds, also after one that failed, starts the
  thread of its operation.
\<close>

theorem creation_failure_not_checked:
  assumes "wf_table (ops st)"
  shows "(parse_opts argv st = Inr st1 \<and> opts.lib (vars st1) = Spawn_fork \<and> fork_calls st = 0 \<and>
          (\<forall>k < length (named (ops st)). \<not> is_child (fork_result sys k)) \<longrightarrow>
            (\<exists>st'. main argv sys st = Inr st' \<and>
               fork_calls st' = length (named (ops st)) \<and>
               stderr st' = stderr st1 \<and>
               stdout st' = stdout st @
                 [Start_balance (opts.amount (vars st1)),
                  End_balance (opts.amount (vars st1)),
                  Expected (opts.amount (vars st1) +
                            total (named (ops st)) * opts.repeat (vars st1))])) \<and>
         (\<exists>thread. pthread_create_loop 0 (of_nat (length (named (ops st)))) sys [] st =
              Inr (thread, st\<lparr>create_calls := create_calls st + length (named (ops st))\<rparr>) \<and>
            length thread = length (named (ops st)) \<and>
            (\<forall>k t. k < length (named (ops st)) \<and>
                   create_result sys (create_calls st + k) = Created t \<longrightarrow>
                     thread ! k =
                       Thread \<lparr>w_op = named (ops st) ! k, w_i = 0, w_pc = At_test, w_tid = t\<rparr>))"
proof (intro conjI impI)
  assume a: "parse_opts argv st = Inr st1 \<and> opts.lib (vars st1) = Spawn_fork \<and> fork_calls st = 0 \<and>
          (\<forall>k < length (named (ops st)). \<not> is_child (fork_result sys k))"
  then have p: "parse_opts argv st = Inr st1" and l: "opts.lib (vars st1) = Spawn_fork"
    and z: "fork_calls st = 0"
    and c: "\<forall>k < length (named (ops st)). \<not> is_child (fork_result sys k)"
    by simp_all
  show "\<exists>st'. main argv sys st = Inr st' \<and>
               fork_calls st' = length (named (ops st)) \<and>
               stderr st' = stderr st1 \<and>
               stdout st' = stdout st @
                 [Start_balance (opts.amount (vars st1)),
                  End_balance (opts.amount (vars st1)),
                  Expected (opts.amount (vars st1) +
                            total (named (ops st)) * opts.repeat (vars st1))]"
    by (simp add: main_parent_fork [OF assms p l z c])
next
  let ?n = "length (named (ops st))"
  let ?thread = "map (\<lambda>j. handle_of (create_result sys (create_calls st + (j - 0)))
                             (named (ops st) ! j)) [0..<?n]"
  have loop: "pthread_create_loop (of_nat 0) (of_nat ?n) sys [] st =
           Inr ([] @ ?thread, st\<lparr>create_calls := create_calls st + (?n - 0)\<rparr>)"
    using assms by (intro pthread_create_loop_all) (simp_all add: wf_table_def)
  show "\<exists>thread. pthread_create_loop 0 (of_nat ?n) sys [] st =
              Inr (thread, st\<lparr>create_calls := create_calls st + ?n\<rparr>) \<and>
            length thread = ?n \<and>
            (\<forall>k t. k < ?n \<and> create_result sys (create_calls st + k) = Created t \<longrightarrow>
                     thread ! k =
                       Thread \<lparr>w_op = named (ops st) ! k, w_i = 0, w_pc = At_test, w_tid = t\<rparr>)"
  proof (intro exI conjI allI impI)
    show "pthread_create_loop 0 (of_nat ?n) sys [] st =
            Inr (?thread, st\<lparr>create_calls := create_calls st + ?n\<rparr>)"
      using loop by simp
    show "length ?thread = ?n" by simp
    fix k t
    assume "k < ?n \<and> create_result sys (create_calls st + k) = Created t"
    then show "?thread ! k =
        Thread \<lparr>w_op = named (ops st) ! k, w_i = 0, w_pc = At_test, w_tid = t\<rparr>"
      by simp
  qed
qed

theorem creation_failure_not_checked_witness:
  "wf_table (ops (boot 4242)) \<and>
   parse_opts [(CHR ''l'', ''fork'', [])] (boot 4242) =
     Inr ((boot 4242)\<lparr>vars := (vars (boot 4242))\<lparr>opts.lib := Spawn_fork\<rparr>\<rparr>) \<and>
   fork_calls (boot 4242) = 0 \<and>
   fork_result os_failing 0 = Fork_failed \<and> fork_result os_failing 1 = Fork_failed \<and>
   fork_result os_failing 2 = Fork_failed \<and> fork_result os_failing 3 = Fork_failed \<and>
   (\<exists>st'. main [(CHR ''l'', ''fork'', [])] os_failing (boot 4242) = Inr st' \<and>
      fork_calls st' = 4 \<and> stderr st' = [] \<and>
      stdout st' = [Start_balance 100000000, End_balance 100000000, Expected 160000000]) \<and>
   create_result os_second_fails 1 = Create_failed \<and>
   (2 :: nat) < length (named (ops (boot 4242))) \<and>
   create_result os_second_fails (create_calls (boot 4242) + 2) = Created 2002 \<and>
   (\<exists>thread. pthread_create_loop 0 4 os_second_fails [] (boot 4242) =
        Inr (thread, (boot 4242)\<lparr>create_calls := 4\<rparr>) \<and>
      length thread = 4 \<and>
      thread ! 2 = Thread \<lparr>w_op = ops_init ! 2, w_i = 0, w_pc = At_test, w_tid = 2002\<rparr>)"
proof -
  let ?st1 = "(boot 4242)\<lparr>vars := (vars (boot 4242))\<lparr>opts.lib := Spawn_fork\<rparr>\<rparr>"
  have w: "wf_table (ops (boot 4242))" by (simp add: boot_fields wf_ops_init)
  have p: "parse_opts [(CHR ''l'', ''fork'', [])] (boot 4242) = Inr ?st1"
    by (rule parse_opts_lib_fork)
  have z: "fork_calls (boot 4242) = 0" by (simp add: boot_fields)
  have c: "\<forall>k < length (named (ops (boot 4242))). \<not> is_child (fork_result os_failing k)"
    by (simp add: is_child_os_failing)
  have h: "parse_opts [(CHR ''l'', ''fork'', [])] (boot 4242) = Inr ?st1 \<and>
      opts.lib (vars ?st1) = Spawn_fork \<and> fork_calls (boot 4242) = 0 \<and>
      (\<forall>k < length (named (ops (boot 4242))). \<not> is_child (fork_result os_failing k))"
    using p z c by simp
  from creation_failure_not_checked
         [OF w, of "[(CHR ''l'', ''fork'', [])]" ?st1 os_failing, THEN conjunct1, THEN mp, OF h]
  have m:
    "\<exists>st'. main [(CHR ''l'', ''fork'', [])] os_failing (boot 4242) = Inr st' \<and>
      fork_calls st' = 4 \<and> stderr st' = [] \<and>
      stdout st' = [Start_balance 100000000, End_balance 100000000, Expected 160000000]"
    by (auto simp: boot_fields named_ops_init total_def vars_init_def DEFAULT_AMOUNT_def
          DEFAULT_REPEAT_def)
  have k: "(2 :: nat) < length (named (ops (boot 4242))) \<and>
      create_result os_second_fails (create_calls (boot 4242) + 2) = Created 2002"
    by (simp add: boot_fields named_ops_init os_second_fails_def)
  from creation_failure_not_checked
         [OF w, of "[(CHR ''l'', ''fork'', [])]" ?st1 os_second_fails, THEN conjunct2]
  obtain thread where
    t1: "pthread_create_loop 0 (of_nat (length (named (ops (boot 4242))))) os_second_fails []
           (boot 4242) =
         Inr (thread, (boot 4242)
                \<lparr>create_calls := create_calls (boot 4242) + length (named (ops (boot 4242)))\<rparr>)"
    and t2: "length thread = length (named (ops (boot 4242)))"
    and t3: "\<forall>k t. k < length (named (ops (boot 4242))) \<and>
               create_result os_second_fails (create_calls (boot 4242) + k) = Created t \<longrightarrow>
               thread ! k =
                 Thread \<lparr>w_op = named (ops (boot 4242)) ! k, w_i = 0, w_pc = At_test, w_tid = t\<rparr>"
    by blast
  from t3 [THEN spec, THEN spec, THEN mp, OF k]
  have t4: "thread ! 2 = Thread \<lparr>w_op = ops_init ! 2, w_i = 0, w_pc = At_test, w_tid = 2002\<rparr>"
    by (simp add: boot_fields named_def ops_init_def)
  from t1 t2 have t:
    "\<exists>thread. pthread_create_loop 0 4 os_second_fails [] (boot 4242) =
        Inr (thread, (boot 4242)\<lparr>create_calls := 4\<rparr>) \<and>
      length thread = 4 \<and>
      thread ! 2 = Thread \<lparr>w_op = ops_init ! 2, w_i = 0, w_pc = At_test, w_tid = 2002\<rparr>"
    using t4 by (auto simp: boot_fields named_ops_init)
  from w p z m k t show ?thesis by (simp add: os_failing_def os_second_fails_def)
qed

text \<open>
  C6. With the values the program starts with (balance 100000000, 10000000
  repetitions, the table Montreal +6, Paris -4, Johannesburg +7, Bangalore -3): the
  serial run ends with the balance 160000000, printed as end balance and as expected
  balance; with \<^verbatim>\<open>fork\<close> the parent prints the end balance 100000000 and the
  expected balance 160000000, and the child of each operation prints 160000000,
  60000000, 170000000 and 70000000 respectively.
\<close>

theorem default_scenario:
  "(\<exists>st'. main [] sys (boot p) = Inr st' \<and>
      balance (global_account st') = 160000000 \<and>
      sint (balance (global_account st')) = 160000000 \<and>
      stdout st' =
        [Atm_balance (Some ''Montreal'') 160000000 p p,
         Atm_balance (Some ''Paris'') 120000000 p p,
         Atm_balance (Some ''Johannesburg'') 190000000 p p,
         Atm_balance (Some ''Bangalore'') 160000000 p p,
         Start_balance 100000000, End_balance 160000000, Expected 160000000]) \<and>
   ((\<forall>k < 4. \<not> is_child (fork_result sys k)) \<longrightarrow>
      (\<exists>st'. main [(CHR ''l'', ''fork'', [])] sys (boot p) = Inr st' \<and>
         balance (global_account st') = 100000000 \<and>
         sint (balance (global_account st')) = 100000000 \<and>
         stdout st' =
           [Start_balance 100000000, End_balance 100000000, Expected 160000000]) \<and>
      (\<forall>k c. k < 4 \<and> fork_result sys k = Fork_parent c \<longrightarrow>
         (\<exists>stc. main [(CHR ''l'', ''fork'', [])] (child_os sys k c) (boot p) = Inr stc \<and>
            stdout stc =
              [Atm_balance (name (ops_init ! k))
                 ([160000000, 60000000, 170000000, 70000000] ! k) c c,
               Start_balance 100000000,
               End_balance ([160000000, 60000000, 170000000, 70000000] ! k),
               Expected 160000000])))"
proof (intro conjI impI allI)
  have w: "wf_table (ops (boot p))" by (simp add: boot_fields wf_ops_init)
  have l: "opts.lib (vars (boot p)) = Spawn_serial" by (simp add: boot_fields vars_init_def)
  show "\<exists>st'. main [] sys (boot p) = Inr st' \<and>
      balance (global_account st') = 160000000 \<and>
      sint (balance (global_account st')) = 160000000 \<and>
      stdout st' =
        [Atm_balance (Some ''Montreal'') 160000000 p p,
         Atm_balance (Some ''Paris'') 120000000 p p,
         Atm_balance (Some ''Johannesburg'') 190000000 p p,
         Atm_balance (Some ''Bangalore'') 160000000 p p,
         Start_balance 100000000, End_balance 160000000, Expected 160000000]"
    by (simp add: main_serial [OF w parse_opts_default l] boot_fields named_ops_init
          total_def after_atms_def start_fields vars_init_def DEFAULT_AMOUNT_def DEFAULT_REPEAT_def)
next
  assume c: "\<forall>k < 4. \<not> is_child (fork_result sys k)"
  let ?st1 = "(boot p)\<lparr>vars := (vars (boot p))\<lparr>opts.lib := Spawn_fork\<rparr>\<rparr>"
  have w: "wf_table (ops (boot p))" by (simp add: boot_fields wf_ops_init)
  have l: "opts.lib (vars ?st1) = Spawn_fork" by simp
  have z: "fork_calls (boot p) = 0" by (simp add: boot_fields)
  have c': "\<forall>k < length (named (ops (boot p))). \<not> is_child (fork_result sys k)"
    using c by (simp add: boot_fields named_ops_init)
  show "\<exists>st'. main [(CHR ''l'', ''fork'', [])] sys (boot p) = Inr st' \<and>
         balance (global_account st') = 100000000 \<and>
         sint (balance (global_account st')) = 100000000 \<and>
         stdout st' =
           [Start_balance 100000000, End_balance 100000000, Expected 160000000]"
    by (simp add: main_parent_fork [OF w parse_opts_lib_fork l z c'] boot_fields named_ops_init
          total_def vars_init_def DEFAULT_AMOUNT_def DEFAULT_REPEAT_def)
next
  fix k c
  assume nc: "\<forall>k < 4. \<not> is_child (fork_result sys k)"
    and kc: "k < 4 \<and> fork_result sys k = Fork_parent c"
  let ?st1 = "(boot p)\<lparr>vars := (vars (boot p))\<lparr>opts.lib := Spawn_fork\<rparr>\<rparr>"
  let ?sys = "child_os sys k c"
  have w: "wf_table (ops (boot p))" by (simp add: boot_fields wf_ops_init)
  have l: "opts.lib (vars ?st1) = Spawn_fork" by simp
  have z: "fork_calls (boot p) = 0" by (simp add: boot_fields)
  have before: "\<forall>j < k. \<not> is_child (fork_result ?sys j)"
    using nc kc by (simp add: child_os_fields)
  have at: "fork_result ?sys k = Fork_child c" by (simp add: child_os_fields)
  have k: "k < length (named (ops (boot p)))" using kc by (simp add: boot_fields named_ops_init)
  from kc have "k = 0 \<or> k = 1 \<or> k = 2 \<or> k = 3" by auto
  then show "\<exists>stc. main [(CHR ''l'', ''fork'', [])] ?sys (boot p) = Inr stc \<and>
            stdout stc =
              [Atm_balance (name (ops_init ! k))
                 ([160000000, 60000000, 170000000, 70000000] ! k) c c,
               Start_balance 100000000,
               End_balance ([160000000, 60000000, 170000000, 70000000] ! k),
               Expected 160000000]"
    apply (simp add: main_child_fork [OF w parse_opts_lib_fork l z before k at] boot_fields
          total_ops_init vars_init_def DEFAULT_AMOUNT_def DEFAULT_REPEAT_def)
    apply (auto simp: ops_init_def)
    done
qed

theorem default_scenario_witness:
  "fork_result os_ok 0 = Fork_parent 1000 \<and> fork_result os_ok 1 = Fork_parent 1001 \<and>
   fork_result os_ok 2 = Fork_parent 1002 \<and> fork_result os_ok 3 = Fork_parent 1003 \<and>
   (\<exists>st'. main [] os_ok (boot 4242) = Inr st' \<and>
      balance (global_account st') = 160000000) \<and>
   (\<exists>st'. main [(CHR ''l'', ''fork'', [])] os_ok (boot 4242) = Inr st' \<and>
      stdout st' = [Start_balance 100000000, End_balance 100000000, Expected 160000000]) \<and>
   (\<exists>stc. main [(CHR ''l'', ''fork'', [])] (child_os os_ok 1 1001) (boot 4242) = Inr stc \<and>
      stdout stc =
        [Atm_balance (Some ''Paris'') 60000000 1001 1001,
         Start_balance 100000000, End_balance 60000000, Expected 160000000])"
proof -
  have c: "\<forall>k < 4. \<not> is_child (fork_result os_ok k)" by (simp add: is_child_os_ok)
  have k: "(1 :: nat) < 4 \<and> fork_result os_ok 1 = Fork_parent 1001" by (simp add: os_ok_def)
  note th = default_scenario [of os_ok 4242]
  from th [THEN conjunct1] have serial:
    "\<exists>st'. main [] os_ok (boot 4242) = Inr st' \<and> balance (global_account st') = 160000000"
    by auto
  from th [THEN conjunct2, THEN mp, OF c, THEN conjunct1] have parent:
    "\<exists>st'. main [(CHR ''l'', ''fork'', [])] os_ok (boot 4242) = Inr st' \<and>
      stdout st' = [Start_balance 100000000, End_balance 100000000, Expected 160000000]"
    by auto
  from th [THEN conjunct2, THEN mp, OF c, THEN conjunct2, THEN spec, THEN spec, THEN mp, OF k] have child:
    "\<exists>stc. main [(CHR ''l'', ''fork'', [])] (child_os os_ok 1 1001) (boot 4242) = Inr stc \<and>
      stdout stc =
        [Atm_balance (Some ''Paris'') 60000000 1001 1001,
         Start_balance 100000000, End_balance 60000000, Expected 160000000]"
    by (simp add: ops_init_def)
  from serial parent child show ?thesis by (simp add: os_ok_def)
qed

text \<open>
  C7. The run \<^verbatim>\<open>banque --lib fork\<close> where the four calls of \<^verbatim>\<open>fork\<close>
  succeed: five processes reach the end of \<^verbatim>\<open>main\<close>, the parent and the four
  children, and each of them writes the three lines of the driver once. The standard
  output therefore receives the three-line report five times, four of them with the
  end balance of a child.
\<close>

theorem fork_children_print_report:
  "map (reports \<circ> written) (run [(CHR ''l'', ''fork'', [])] os_ok (boot 4242)) = [1, 1, 1, 1, 1] \<and>
   map written (run [(CHR ''l'', ''fork'', [])] os_ok (boot 4242)) =
     [[Start_balance 100000000, End_balance 100000000, Expected 160000000],
      [Atm_balance (Some ''Montreal'') 160000000 1000 1000,
       Start_balance 100000000, End_balance 160000000, Expected 160000000],
      [Atm_balance (Some ''Paris'') 60000000 1001 1001,
       Start_balance 100000000, End_balance 60000000, Expected 160000000],
      [Atm_balance (Some ''Johannesburg'') 170000000 1002 1002,
       Start_balance 100000000, End_balance 170000000, Expected 160000000],
      [Atm_balance (Some ''Bangalore'') 70000000 1003 1003,
       Start_balance 100000000, End_balance 70000000, Expected 160000000]]"
proof -
  let ?argv = "[(CHR ''l'', ''fork'', [])]"
  let ?st1 = "(boot 4242)\<lparr>vars := (vars (boot 4242))\<lparr>opts.lib := Spawn_fork\<rparr>\<rparr>"
  have w: "wf_table (ops (boot 4242))" by (simp add: boot_fields wf_ops_init)
  have l: "opts.lib (vars ?st1) = Spawn_fork" by simp
  have z: "fork_calls (boot 4242) = 0" by (simp add: boot_fields)
  have c: "\<forall>k < length (named (ops (boot 4242))). \<not> is_child (fork_result os_ok k)"
    by (simp add: is_child_os_ok)
  have n: "length (named (ops (boot 4242))) = 4" by (simp add: boot_fields named_ops_init)
  have child: "main ?argv (child_os os_ok k (1000 + k)) (boot 4242) =
     Inr (?st1\<lparr>global_account := (global_account ?st1)
               \<lparr>balance := opts.amount (vars ?st1) +
                   opts.repeat (vars ?st1) * scast (operation.amount (ops (boot 4242) ! k))\<rparr>,
             children := [], fork_calls := Suc k, pid := 1000 + k, tid := 1000 + k,
             stdout := stdout (boot 4242) @
               [Atm_balance (name (ops (boot 4242) ! k))
                  (opts.amount (vars ?st1) +
                   opts.repeat (vars ?st1) * scast (operation.amount (ops (boot 4242) ! k)))
                  (1000 + k) (1000 + k),
                Start_balance (opts.amount (vars ?st1)),
                End_balance (opts.amount (vars ?st1) +
                   opts.repeat (vars ?st1) * scast (operation.amount (ops (boot 4242) ! k))),
                Expected (opts.amount (vars ?st1) +
                          total (named (ops (boot 4242))) * opts.repeat (vars ?st1))]\<rparr>)"
    if "k < 4" for k
  proof (rule main_child_fork [OF w parse_opts_lib_fork l z])
    show "\<forall>j<k. \<not> is_child (fork_result (child_os os_ok k (1000 + k)) j)"
      by (simp add: child_os_fields is_child_os_ok)
    show "k < length (named (ops (boot 4242)))" using that n by simp
    show "fork_result (child_os os_ok k (1000 + k)) k = Fork_child (1000 + k)"
      by (simp add: child_os_fields)
  qed
  have r: "run ?argv os_ok (boot 4242) =
      main ?argv os_ok (boot 4242) #
      [main ?argv (child_os os_ok 0 1000) (boot 4242),
       main ?argv (child_os os_ok 1 1001) (boot 4242),
       main ?argv (child_os os_ok 2 1002) (boot 4242),
       main ?argv (child_os os_ok 3 1003) (boot 4242)]"
    by (simp add: run_def child_runs_def main_parent_fork [OF w parse_opts_lib_fork l z c] n upt4)
       (simp add: os_ok_def)
  show ?thesis
    using child [of 0] child [of 1] child [of 2] child [of 3]
    by (simp add: r main_parent_fork [OF w parse_opts_lib_fork l z c] written_def boot_fields
          total_ops_init vars_init_def DEFAULT_AMOUNT_def DEFAULT_REPEAT_def)
       (simp add: ops_init_def)
qed

text \<open>
  C9. \<^verbatim>\<open>nr_ops\<close> returns 0 for the \<^verbatim>\<open>NULL\<close> pointer and 4 for the table of the
  program. For every table that holds an entry whose name is \<^verbatim>\<open>NULL\<close> it returns
  the number of entries before the first such entry: as an \<^verbatim>\<open>int\<close>, that is this
  number converted to 32 bits, and the number itself whenever it is below \<open>2 ^ 31\<close>.
\<close>

theorem nr_ops_counts:
  "nr_ops None = Inr 0 \<and>
   nr_ops (Some ops_init) = Inr 4 \<and>
   ((\<exists>e \<in> set tbl. name e = None) \<longrightarrow>
      nr_ops (Some tbl) = Inr (of_nat (length (takeWhile (\<lambda>e. name e \<noteq> None) tbl))) \<and>
      (length (takeWhile (\<lambda>e. name e \<noteq> None) tbl) < 2 ^ 31 \<longrightarrow>
         (\<exists>n. nr_ops (Some tbl) = Inr n \<and>
              sint n = int (length (takeWhile (\<lambda>e. name e \<noteq> None) tbl)))))"
  by (simp add: nr_ops_def nr_ops_loop_sentinel sint_of_nat_cint ops_init_def)

theorem nr_ops_counts_witness:
  "(\<exists>e \<in> set ops_init. name e = None) \<and>
   length (takeWhile (\<lambda>e. name e \<noteq> None) ops_init) < 2 ^ 31 \<and>
   nr_ops (Some ops_init) = Inr (of_nat (length (takeWhile (\<lambda>e. name e \<noteq> None) ops_init))) \<and>
   (\<exists>n. nr_ops (Some ops_init) = Inr n \<and> sint n = 4)"
  using nr_ops_counts [of ops_init] by (simp add: ops_init_def)

text \<open>
  C10. When the configured repeat count is negative, the body of the loop of
  \<^verbatim>\<open>atm\<close> runs \<open>2 ^ 64 + r\<close> times, which is not zero: the counter is unsigned
  and the repeat count is converted to \<^verbatim>\<open>unsigned long\<close> for the comparison. The
  balance that \<^verbatim>\<open>atm\<close> leaves is the amount added that many times.
\<close>

theorem negative_repeat_iterations:
  assumes "sint (opts.repeat (vars st)) < 0" and "account e = Some Global_account"
  shows "int (atm_iterations 0 (opts.repeat (vars st))) = 2 ^ 64 + sint (opts.repeat (vars st)) \<and>
         0 < atm_iterations 0 (opts.repeat (vars st)) \<and>
         (\<exists>st'. atm e st = Inr st' \<and>
            balance (global_account st') =
              ((\<lambda>b. b + scast (operation.amount e)) ^^
                 nat (2 ^ 64 + sint (opts.repeat (vars st)))) (balance (global_account st)))"
proof -
  let ?r = "opts.repeat (vars st)"
  have it: "atm_iterations 0 ?r = unat ?r" by (simp add: atm_iterations_eq)
  have eq: "int (unat ?r) = 2 ^ 64 + sint ?r" using assms(1) by (rule unat_negative)
  have "?r \<noteq> 0" using assms(1) by auto
  then have pos: "0 < unat ?r" by (simp add: unat_gt_0)
  have n: "nat (2 ^ 64 + sint ?r) = unat ?r" using eq by linarith
  have "\<exists>st'. atm e st = Inr st' \<and>
          balance (global_account st') =
            ((\<lambda>b. b + scast (operation.amount e)) ^^ unat ?r) (balance (global_account st))"
    using assms(2) by (simp add: atm_def Let_def atm_loop_funpow it)
  then show ?thesis unfolding n using it eq pos by simp
qed

theorem negative_repeat_iterations_witness:
  "parse_opts [(CHR ''r'', ''-1'', [])] (boot 4242) =
     Inr ((boot 4242)\<lparr>vars := \<lparr>amount = 100000000, repeat = - 1, lib = Spawn_serial\<rparr>\<rparr>) \<and>
   sint (- 1 :: long) < 0 \<and>
   account (ops_init ! 0) = Some Global_account \<and>
   int (atm_iterations 0 (- 1)) = 2 ^ 64 - 1 \<and>
   atm_iterations 0 (- 1) \<noteq> 0"
  using negative_repeat_iterations
    [of "(boot 4242)\<lparr>vars := \<lparr>amount = 100000000, repeat = - 1, lib = Spawn_serial\<rparr>\<rparr>"
        "ops_init ! 0"]
  by (simp add: atol_defs boot_def vars_init_def DEFAULT_AMOUNT_def ops_init_def getopt_long_def)

end
